theory Spec2Isabelle
  imports Complex_Main "HOL-Library.AList" "HOL-Library.Multiset"
begin

section \<open>Python values used by the analyzer\<close>

text \<open>
  A Python \<open>str\<close> is the list of its Unicode code points. \<open>ustr\<close> turns an ASCII
  literal into such a list.
\<close>

type_synonym pystr = "nat list"

definition ustr :: "string \<Rightarrow> pystr" where
  "ustr s = map of_char s"

text \<open>Python slicing \<open>xs[a:b]\<close>: a negative index counts from the end, and both
  ends are clipped to the list.\<close>

definition py_clip :: "nat \<Rightarrow> int \<Rightarrow> nat" where
  "py_clip n i = (if i < 0 then nat (max 0 (int n + i)) else min n (nat i))"

definition py_slice :: "'a list \<Rightarrow> int \<Rightarrow> int \<Rightarrow> 'a list" where
  "py_slice xs a b =
     (let lo = py_clip (length xs) a; hi = py_clip (length xs) b
      in take (hi - lo) (drop lo xs))"

text \<open>\<open>range(a, b)\<close>.\<close>

definition py_range :: "int \<Rightarrow> int \<Rightarrow> int list" where
  "py_range a b = map (\<lambda>k. a + int k) [0..<nat (b - a)]"

section \<open>Batching in \<open>analyze_dataset\<close>\<close>

text \<open>
  \<open>total_batches = (len(df) + batch_size - 1) // batch_size\<close>. Python's \<open>//\<close> is floor
  division, as \<open>div\<close> on \<open>int\<close> is; \<open>batch_size = 0\<close> raises in Python and is a branch of
  \<open>analyze_dataset\<close> below.
\<close>

definition total_batches :: "nat \<Rightarrow> int \<Rightarrow> int" where
  "total_batches n batch_size = (int n + batch_size - 1) div batch_size"

text \<open>\<open>start_idx = batch_num * batch_size\<close> and
  \<open>end_idx = min((batch_num + 1) * batch_size, len(df))\<close>.\<close>

definition start_idx :: "int \<Rightarrow> int \<Rightarrow> int" where
  "start_idx batch_size batch_num = batch_num * batch_size"

definition end_idx :: "nat \<Rightarrow> int \<Rightarrow> int \<Rightarrow> int" where
  "end_idx n batch_size batch_num = min ((batch_num + 1) * batch_size) (int n)"

text \<open>\<open>df.iloc[start_idx:end_idx]\<close> on the rows of the frame.\<close>

definition batch_slice :: "'a list \<Rightarrow> int \<Rightarrow> int \<Rightarrow> 'a list" where
  "batch_slice rws batch_size batch_num =
     py_slice rws (start_idx batch_size batch_num) (end_idx (length rws) batch_size batch_num)"

section \<open>String operations\<close>

text \<open>
  \<open>sub in s\<close>, \<open>s.find(sub, start)\<close>, \<open>s.rfind(sub)\<close>, \<open>s.startswith(sub)\<close>,
  \<open>s.endswith(sub)\<close> and \<open>s.strip()\<close>. \<open>find\<close> and \<open>rfind\<close> answer \<open>-1\<close> when there is no
  occurrence. \<open>strip\<close> removes the characters for which \<open>str.isspace\<close> holds.
\<close>

definition startswith :: "'a list \<Rightarrow> 'a list \<Rightarrow> bool" where
  "startswith s sub = (take (length sub) s = sub)"

fun first_index :: "'a list \<Rightarrow> 'a list \<Rightarrow> nat option" where
  "first_index sub [] = (if sub = [] then Some 0 else None)"
| "first_index sub (c # cs) =
     (if startswith (c # cs) sub then Some 0 else map_option Suc (first_index sub cs))"

fun last_index :: "'a list \<Rightarrow> 'a list \<Rightarrow> nat option" where
  "last_index sub [] = (if sub = [] then Some 0 else None)"
| "last_index sub (c # cs) =
     (case last_index sub cs of
        Some i \<Rightarrow> Some (Suc i)
      | None \<Rightarrow> if startswith (c # cs) sub then Some 0 else None)"

definition py_in :: "'a list \<Rightarrow> 'a list \<Rightarrow> bool" where
  "py_in sub s = (first_index sub s \<noteq> None)"

definition py_find :: "'a list \<Rightarrow> 'a list \<Rightarrow> nat \<Rightarrow> int" where
  "py_find s sub start =
     (if length s < start then - 1
      else case first_index sub (drop start s) of None \<Rightarrow> - 1 | Some i \<Rightarrow> int (start + i))"

definition py_rfind :: "'a list \<Rightarrow> 'a list \<Rightarrow> int" where
  "py_rfind s sub = (case last_index sub s of None \<Rightarrow> - 1 | Some i \<Rightarrow> int i)"

definition py_isspace :: "nat \<Rightarrow> bool" where
  "py_isspace c = (c \<in> set [9, 10, 11, 12, 13, 28, 29, 30, 31, 32, 133, 160, 5760,
       8192, 8193, 8194, 8195, 8196, 8197, 8198, 8199, 8200, 8201, 8202,
       8232, 8233, 8239, 8287, 12288])"

definition py_strip :: "pystr \<Rightarrow> pystr" where
  "py_strip s = rev (dropWhile py_isspace (rev (dropWhile py_isspace s)))"

definition endswith :: "'a list \<Rightarrow> 'a list \<Rightarrow> bool" where
  "endswith s suffix =
     (length suffix \<le> length s \<and> drop (length s - length suffix) s = suffix)"

text \<open>\<open>str(i)\<close> for an integer.\<close>

fun str_nat :: "nat \<Rightarrow> pystr" where
  "str_nat n = (if n < 10 then [48 + n] else str_nat (n div 10) @ [48 + n mod 10])"

declare str_nat.simps [simp del]

definition py_str_int :: "int \<Rightarrow> pystr" where
  "py_str_int i = (if i < 0 then 45 # str_nat (nat (- i)) else str_nat (nat i))"

section \<open>JSON values and \<open>json.loads\<close>\<close>

text \<open>
  The values \<open>json.loads\<close> builds: \<open>None\<close>, \<open>bool\<close>, \<open>int\<close>, \<open>float\<close>, \<open>str\<close>, \<open>list\<close> and
  \<open>dict\<close> (an association list in insertion order, with distinct keys). A float literal is
  kept as the decimal number it spells, \<open>Finite m e\<close> for \<open>m * 10 ^ e\<close>; Python rounds it to
  the nearest double. \<open>float_nonzero\<close> is the test \<open>x != 0.0\<close> on that double: a decimal
  rounds to zero exactly when its magnitude is at most \<open>2 ^ -1075\<close>.
\<close>

datatype pyfloat = Finite int int | PosInf | NegInf | NaN

datatype json =
    JNull
  | JBool bool
  | JInt int
  | JFloat pyfloat
  | JStr pystr
  | JArr "json list"
  | JObj "(pystr \<times> json) list"

fun float_nonzero :: "pyfloat \<Rightarrow> bool" where
  "float_nonzero (Finite m e) =
     (m \<noteq> 0 \<and> (0 \<le> e \<or> 10 ^ nat (- e) < \<bar>m\<bar> * 2 ^ 1075))"
| "float_nonzero _ = True"

text \<open>Truth value of an object, as \<open>if result:\<close> tests it.\<close>

fun py_truthy :: "json \<Rightarrow> bool" where
  "py_truthy JNull = False"
| "py_truthy (JBool b) = b"
| "py_truthy (JInt i) = (i \<noteq> 0)"
| "py_truthy (JFloat f) = float_nonzero f"
| "py_truthy (JStr s) = (s \<noteq> [])"
| "py_truthy (JArr xs) = (xs \<noteq> [])"
| "py_truthy (JObj kvs) = (kvs \<noteq> [])"

text \<open>
  \<open>json.loads\<close> on a \<open>str\<close>, with the decoder's defaults: the text is one JSON value
  between optional blanks; besides the JSON grammar the decoder accepts \<open>NaN\<close>, \<open>Infinity\<close>
  and \<open>-Infinity\<close>; a string may not hold a raw control character; a repeated key keeps its
  first position and its last value. The text is cut into tokens, then the tokens are read
  by a pushdown automaton whose stack holds the arrays and objects still open. \<open>None\<close>
  stands for \<open>JSONDecodeError\<close>. \<open>json.loads\<close> belongs to Python's standard library, not
  to the repository: this is its documented behaviour, without the limits of the
  interpreter (recursion depth, length of integer literals).
\<close>

datatype token = TLBrace | TRBrace | TLBrack | TRBrack | TComma | TColon | TVal json

definition is_digit :: "nat \<Rightarrow> bool" where
  "is_digit c = (48 \<le> c \<and> c \<le> 57)"

definition hex_digit :: "nat \<Rightarrow> nat option" where
  "hex_digit c =
     (if 48 \<le> c \<and> c \<le> 57 then Some (c - 48)
      else if 97 \<le> c \<and> c \<le> 102 then Some (c - 87)
      else if 65 \<le> c \<and> c \<le> 70 then Some (c - 55)
      else None)"

fun hex4 :: "pystr \<Rightarrow> nat option" where
  "hex4 (a # b # c # d # _) =
     (case (hex_digit a, hex_digit b, hex_digit c, hex_digit d) of
        (Some x, Some y, Some z, Some w) \<Rightarrow> Some (((x * 16 + y) * 16 + z) * 16 + w)
      | _ \<Rightarrow> None)"
| "hex4 _ = None"

definition simple_escape :: "nat \<Rightarrow> nat option" where
  "simple_escape c =
     (if c = 34 \<or> c = 92 \<or> c = 47 then Some c
      else if c = 98 then Some 8
      else if c = 102 then Some 12
      else if c = 110 then Some 10
      else if c = 114 then Some 13
      else if c = 116 then Some 9
      else None)"

text \<open>
  The body of a string literal, after its opening quote: the decoded text and the number
  of characters read, closing quote included. \<open>emit c n r\<close> puts the character \<open>c\<close>, read
  from \<open>n\<close> characters of input, in front of the rest \<open>r\<close>.
\<close>

definition emit :: "nat \<Rightarrow> nat \<Rightarrow> (pystr \<times> nat) option \<Rightarrow> (pystr \<times> nat) option" where
  "emit c n r = map_option (\<lambda>(s, k). (c # s, n + k)) r"

fun scan_string :: "pystr \<Rightarrow> (pystr \<times> nat) option" where
  "scan_string [] = None"
| "scan_string (c # cs) =
     (if c = 34 then Some ([], 1)
      else if c = 92 then
        (case cs of
           [] \<Rightarrow> None
         | e # r \<Rightarrow>
            if e = 117 then
              (case hex4 r of
                 None \<Rightarrow> None
               | Some u \<Rightarrow>
                  if 55296 \<le> u \<and> u \<le> 56319 \<and> startswith (drop 4 r) [92, 117] then
                    (case hex4 (drop 6 r) of
                       None \<Rightarrow> None
                     | Some u2 \<Rightarrow>
                        if 56320 \<le> u2 \<and> u2 \<le> 57343
                        then emit (65536 + (u - 55296) * 1024 + (u2 - 56320)) 12
                               (scan_string (drop 10 r))
                        else emit u 6 (scan_string (drop 4 r)))
                  else emit u 6 (scan_string (drop 4 r)))
            else
              (case simple_escape e of
                 None \<Rightarrow> None
               | Some x \<Rightarrow> emit x 2 (scan_string r)))
      else if c < 32 then None
      else emit c 1 (scan_string cs))"

text \<open>
  A number literal at the head of \<open>s\<close>: an optional minus sign; \<open>0\<close>, or digits that
  do not start with \<open>0\<close>; an optional fraction (a dot and at least one digit); an optional
  exponent (\<open>e\<close> or \<open>E\<close>, an optional sign, at least one digit). It is an \<open>int\<close> when it
  has neither fraction nor exponent and a \<open>float\<close> otherwise. The result comes with the
  number of characters read.
\<close>

definition digits_value :: "pystr \<Rightarrow> nat" where
  "digits_value ds = foldl (\<lambda>a c. 10 * a + (c - 48)) 0 ds"

definition scan_number :: "pystr \<Rightarrow> (json \<times> nat) option" where
  "scan_number s =
     (let neg = startswith s [45];
          body = (if neg then drop 1 s else s);
          lead = takeWhile is_digit body;
          ipart = (if startswith lead [48] then [48] else lead);
          after_int = drop (length ipart) body;
          fpart = (if startswith after_int [46] then takeWhile is_digit (drop 1 after_int) else []);
          after_frac = (if fpart = [] then after_int else drop (1 + length fpart) after_int);
          has_e = (startswith after_frac [101] \<or> startswith after_frac [69]);
          esign = (if has_e \<and> (startswith (drop 1 after_frac) [45] \<or> startswith (drop 1 after_frac) [43])
                   then 1 else 0);
          epart = (if has_e then takeWhile is_digit (drop (1 + esign) after_frac) else []);
          eneg = (has_e \<and> startswith (drop 1 after_frac) [45]);
          used = (if neg then 1 else 0) + length ipart
                 + (if fpart = [] then 0 else 1 + length fpart)
                 + (if epart = [] then 0 else 1 + esign + length epart);
          sgn = (if neg then - 1 else 1)
      in if ipart = [] then None
         else if fpart = [] \<and> epart = [] then Some (JInt (sgn * int (digits_value ipart)), used)
         else Some (JFloat (Finite (sgn * int (digits_value (ipart @ fpart)))
                      ((if eneg then - int (digits_value epart) else int (digits_value epart))
                        - int (length fpart))), used))"

definition is_json_ws :: "nat \<Rightarrow> bool" where
  "is_json_ws c = (c = 32 \<or> c = 9 \<or> c = 10 \<or> c = 13)"

definition tok :: "token \<Rightarrow> token list option \<Rightarrow> token list option" where
  "tok t r = map_option ((#) t) r"

fun tokenize :: "pystr \<Rightarrow> token list option" where
  "tokenize [] = Some []"
| "tokenize (c # cs) =
     (if is_json_ws c then tokenize cs
      else if c = 123 then tok TLBrace (tokenize cs)
      else if c = 125 then tok TRBrace (tokenize cs)
      else if c = 91 then tok TLBrack (tokenize cs)
      else if c = 93 then tok TRBrack (tokenize cs)
      else if c = 44 then tok TComma (tokenize cs)
      else if c = 58 then tok TColon (tokenize cs)
      else if c = 34 then
        (case scan_string cs of
           None \<Rightarrow> None
         | Some (s, n) \<Rightarrow> tok (TVal (JStr s)) (tokenize (drop n cs)))
      else if startswith (c # cs) (ustr ''null'') then tok (TVal JNull) (tokenize (drop 3 cs))
      else if startswith (c # cs) (ustr ''true'') then tok (TVal (JBool True)) (tokenize (drop 3 cs))
      else if startswith (c # cs) (ustr ''false'') then tok (TVal (JBool False)) (tokenize (drop 4 cs))
      else if startswith (c # cs) (ustr ''NaN'') then tok (TVal (JFloat NaN)) (tokenize (drop 2 cs))
      else if startswith (c # cs) (ustr ''Infinity'') then tok (TVal (JFloat PosInf)) (tokenize (drop 7 cs))
      else if startswith (c # cs) (ustr ''-Infinity'') then tok (TVal (JFloat NegInf)) (tokenize (drop 8 cs))
      else
        (case scan_number (c # cs) of
           None \<Rightarrow> None
         | Some (v, n) \<Rightarrow> tok (TVal v) (tokenize (drop (n - 1) cs))))"

datatype frame = InArr "json list" | InObj "(pystr \<times> json) list" pystr

fun want_value :: "frame list \<Rightarrow> token list \<Rightarrow> json option"
  and got_value :: "json \<Rightarrow> frame list \<Rightarrow> token list \<Rightarrow> json option" where
  "want_value st [] = None"
| "want_value st (t # ts) =
     (case t of
        TVal v \<Rightarrow> got_value v st ts
      | TLBrack \<Rightarrow>
          (case ts of
             TRBrack # ts' \<Rightarrow> got_value (JArr []) st ts'
           | _ \<Rightarrow> want_value (InArr [] # st) ts)
      | TLBrace \<Rightarrow>
          (case ts of
             TRBrace # ts' \<Rightarrow> got_value (JObj []) st ts'
           | TVal (JStr k) # TColon # ts' \<Rightarrow> want_value (InObj [] k # st) ts'
           | _ \<Rightarrow> None)
      | _ \<Rightarrow> None)"
| "got_value v [] ts = (if ts = [] then Some v else None)"
| "got_value v (f # st) [] = None"
| "got_value v (f # st) (t # ts) =
     (case f of
        InArr items \<Rightarrow>
          (case t of
             TComma \<Rightarrow> want_value (InArr (v # items) # st) ts
           | TRBrack \<Rightarrow> got_value (JArr (rev (v # items))) st ts
           | _ \<Rightarrow> None)
      | InObj ps k \<Rightarrow>
          (case t of
             TRBrace \<Rightarrow> got_value (JObj (AList.update k v ps)) st ts
           | TComma \<Rightarrow>
               (case ts of
                  TVal (JStr k') # TColon # ts' \<Rightarrow>
                    want_value (InObj (AList.update k v ps) k' # st) ts'
                | _ \<Rightarrow> None)
           | _ \<Rightarrow> None))"

definition json_loads :: "pystr \<Rightarrow> json option" where
  "json_loads s = (case tokenize s of None \<Rightarrow> None | Some ts \<Rightarrow> want_value [] ts)"

section \<open>The retrying API call\<close>

text \<open>The text handed to \<open>json.loads\<close>, cut out of the model's answer \<open>content\<close>.\<close>

definition extract_json_content :: "pystr \<Rightarrow> pystr" where
  "extract_json_content content =
     (if py_in (ustr ''```json'') content then
        (let json_start = py_find content (ustr ''```json'') 0 + 7;
             json_end = py_find content (ustr ''```'') (nat json_start)
         in py_strip (py_slice content json_start json_end))
      else if py_in [123] content \<and> py_in [125] content then
        (let json_start = py_find content [123] 0;
             json_end = py_rfind content [125] + 1
         in py_slice content json_start json_end)
      else content)"

text \<open>
  The client is the environment: \<open>client self prompt k\<close> is what the \<open>k\<close>-th request made
  for \<open>prompt\<close> does, either raise an exception with message \<open>e\<close> (anything the
  \<open>except Exception\<close> clause catches) or answer with the text
  \<open>response.choices[0].message.content\<close>. A prompt is one of the two fixed templates,
  chosen by \<open>enable_mislabel_analysis\<close>, filled with four strings; the model keeps the
  choice and the strings, which determine the text.
\<close>

datatype client_outcome = Raises pystr | Responds pystr

datatype prompt = Prompt bool pystr pystr pystr pystr

text \<open>What the call does besides returning: requests to the client and \<open>time.sleep\<close>.\<close>

datatype event = Called nat | Slept nat

type_synonym dict = "(pystr \<times> json) list"

text \<open>
  The analyzer object. \<open>files\<close> is the content of the directory \<open>temp_dir\<close>, by file name:
  a file holds the JSON value last dumped into it. \<open>writes\<close> lists every \<open>json.dump\<close>
  into that directory, oldest first. Writing is taken to succeed.
\<close>

record analyzer =
  client :: "prompt \<Rightarrow> nat \<Rightarrow> client_outcome"
  max_retries :: int
  enable_mislabel_analysis :: bool
  completed_count :: nat
  failed_items :: "json list"
  files :: "(pystr \<times> json) list"
  writes :: "(pystr \<times> json) list"

text \<open>\<open>__init__\<close>: a new analyzer, over a client and the files already in \<open>temp_dir\<close>.\<close>

definition new_analyzer ::
  "(prompt \<Rightarrow> nat \<Rightarrow> client_outcome) \<Rightarrow> int \<Rightarrow> bool \<Rightarrow> (pystr \<times> json) list \<Rightarrow> analyzer" where
  "new_analyzer cl retries mislabel existing =
     \<lparr>client = cl, max_retries = retries, enable_mislabel_analysis = mislabel,
      completed_count = 0, failed_items = [], files = existing, writes = []\<rparr>"

definition create_analysis_prompt ::
  "'a analyzer_scheme \<Rightarrow> pystr \<Rightarrow> pystr \<Rightarrow> pystr \<Rightarrow> pystr \<Rightarrow> prompt" where
  "create_analysis_prompt self target_dataset_id article_id aggregated_text type_label =
     Prompt (enable_mislabel_analysis self) target_dataset_id article_id aggregated_text type_label"

text \<open>The message \<open>"JSON\<dots>"\<close> of the fallback result, as code points.\<close>

definition json_parse_failed :: pystr where
  "json_parse_failed = ustr ''JSON'' @ [35299, 26512, 22833, 36133]"

text \<open>
  The body of \<open>for attempt in range(self.max_retries)\<close>, over the attempts still to run.
  \<open>Some result\<close> is a \<open>return result\<close> inside the loop; \<open>None\<close> is the loop running out.
\<close>

fun retry_loop ::
  "(nat \<Rightarrow> client_outcome) \<Rightarrow> pystr \<Rightarrow> int \<Rightarrow> nat list \<Rightarrow> json option \<times> event list" where
  "retry_loop respond item_id retries [] = (None, [])"
| "retry_loop respond item_id retries (attempt # rest) =
     (case respond attempt of
        Responds content \<Rightarrow>
          (case json_loads (extract_json_content content) of
             Some result \<Rightarrow> (Some result, [Called attempt])
           | None \<Rightarrow>
               if int attempt = retries - 1
               then (Some (JObj [(ustr ''error'', JStr json_parse_failed),
                                 (ustr ''raw_response'', JStr content),
                                 (ustr ''item_id'', JStr item_id)]),
                     [Called attempt])
               else (case retry_loop respond item_id retries rest of
                       (r, evs) \<Rightarrow> (r, Called attempt # evs)))
      | Raises e \<Rightarrow>
          if int attempt < retries - 1
          then (case retry_loop respond item_id retries rest of
                  (r, evs) \<Rightarrow> (r, Called attempt # Slept (2 ^ attempt) # evs))
          else (Some (JObj [(ustr ''error'', JStr e), (ustr ''item_id'', JStr item_id)]),
                [Called attempt]))"

text \<open>The two error results built in the loop.\<close>

definition call_error :: "pystr \<Rightarrow> pystr \<Rightarrow> json" where
  "call_error e item_id = JObj [(ustr ''error'', JStr e), (ustr ''item_id'', JStr item_id)]"

definition parse_fallback :: "pystr \<Rightarrow> pystr \<Rightarrow> json" where
  "parse_fallback content item_id =
     JObj [(ustr ''error'', JStr json_parse_failed), (ustr ''raw_response'', JStr content),
           (ustr ''item_id'', JStr item_id)]"

text \<open>The requests and the sleeps among the events, in order.\<close>

fun requests :: "event list \<Rightarrow> nat list" where
  "requests [] = []"
| "requests (Called a # evs) = a # requests evs"
| "requests (Slept d # evs) = requests evs"

fun sleeps :: "event list \<Rightarrow> nat list" where
  "sleeps [] = []"
| "sleeps (Called a # evs) = sleeps evs"
| "sleeps (Slept d # evs) = d # sleeps evs"

text \<open>\<open>call_api_with_retry\<close>: the loop, then \<open>return None\<close>. With its events.\<close>

definition call_api_with_retry ::
  "'a analyzer_scheme \<Rightarrow> prompt \<Rightarrow> pystr \<Rightarrow> json \<times> event list" where
  "call_api_with_retry self prompt item_id =
     (case retry_loop (client self prompt) item_id (max_retries self)
             [0..<nat (max_retries self)] of
        (Some result, evs) \<Rightarrow> (result, evs)
      | (None, evs) \<Rightarrow> (JNull, evs))"

section \<open>Processing items and batches\<close>

definition write_file :: "pystr \<Rightarrow> json \<Rightarrow> analyzer \<Rightarrow> analyzer" where
  "write_file name v self =
     self\<lparr>files := AList.update name v (files self), writes := writes self @ [(name, v)]\<rparr>"

definition save_intermediate_result :: "dict \<Rightarrow> int \<Rightarrow> nat \<Rightarrow> analyzer \<Rightarrow> analyzer" where
  "save_intermediate_result result batch_id item_index self =
     write_file (ustr ''batch_'' @ py_str_int batch_id @ ustr ''_item_''
                   @ py_str_int (int item_index) @ ustr ''.json'')
       (JObj result) self"

record row =
  target_dataset_id :: pystr
  article_id :: pystr
  aggregated_text :: pystr
  type_label :: pystr

text \<open>
  \<open>str(e)\<close> for the \<open>TypeError\<close> that \<open>result['original_data'] = \<dots>\<close> raises when
  \<open>result\<close> is not a \<open>dict\<close>.
\<close>

fun setitem_error :: "json \<Rightarrow> pystr" where
  "setitem_error (JArr xs) = ustr ''list indices must be integers or slices, not str''"
| "setitem_error (JStr s) = ustr [CHR 0x27] @ ustr ''str'' @ ustr [CHR 0x27]
     @ ustr '' object does not support item assignment''"
| "setitem_error (JInt i) = ustr [CHR 0x27] @ ustr ''int'' @ ustr [CHR 0x27]
     @ ustr '' object does not support item assignment''"
| "setitem_error (JBool b) = ustr [CHR 0x27] @ ustr ''bool'' @ ustr [CHR 0x27]
     @ ustr '' object does not support item assignment''"
| "setitem_error (JFloat f) = ustr [CHR 0x27] @ ustr ''float'' @ ustr [CHR 0x27]
     @ ustr '' object does not support item assignment''"
| "setitem_error JNull = ustr [CHR 0x27] @ ustr ''NoneType'' @ ustr [CHR 0x27]
     @ ustr '' object does not support item assignment''"
| "setitem_error (JObj d) = []"

text \<open>The prompt of a row, and \<open>f"{batch_id}_{index}"\<close>.\<close>

definition row_prompt :: "'a analyzer_scheme \<Rightarrow> row \<Rightarrow> prompt" where
  "row_prompt self rw =
     create_analysis_prompt self (target_dataset_id rw) (article_id rw)
       (aggregated_text rw) (type_label rw)"

definition item_id_of :: "int \<Rightarrow> nat \<Rightarrow> pystr" where
  "item_id_of batch_id index = py_str_int batch_id @ ustr ''_'' @ py_str_int (int index)"

text \<open>
  \<open>process_single_item\<close>, with the analyzer it leaves. \<open>index\<close> is the row's label in
  the frame; the frame has the default labels \<open>0, 1, \<dots>\<close>, which \<open>iloc\<close> keeps.
\<close>

definition process_single_item ::
  "nat \<times> row \<Rightarrow> int \<Rightarrow> analyzer \<Rightarrow> dict option \<times> analyzer" where
  "process_single_item item batch_id self =
     (case item of (index, rw) \<Rightarrow>
        (let prompt = row_prompt self rw;
             result = fst (call_api_with_retry self prompt (item_id_of batch_id index))
         in if py_truthy result then
              (case result of
                 JObj d \<Rightarrow>
                   (let tagged = AList.update (ustr ''original_data'')
                          (JObj [(ustr ''index'', JInt (int index)),
                                 (ustr ''target_dataset_id'', JStr (target_dataset_id rw)),
                                 (ustr ''article_id'', JStr (article_id rw)),
                                 (ustr ''type'', JStr (type_label rw))]) d;
                        saved = save_intermediate_result tagged batch_id index self
                    in (Some tagged, saved\<lparr>completed_count := completed_count saved + 1\<rparr>))
               | _ \<Rightarrow>
                   (None, self\<lparr>failed_items := failed_items self @
                      [JObj [(ustr ''batch_id'', JInt batch_id),
                             (ustr ''index'', JInt (int index)),
                             (ustr ''error'', JStr (setitem_error result))]]\<rparr>))
            else (None, self)))"

text \<open>
  \<open>process_batch\<close>. The workers share only \<open>completed_count\<close> and \<open>failed_items\<close>, both
  changed under the lock, and write different files, so a batch does what running its
  items one after the other in some order does. \<open>completion\<close> is that order, the one in
  which \<open>as_completed\<close> yields the futures; the thread pool chooses it.
\<close>

fun run_items :: "(nat \<times> row) list \<Rightarrow> int \<Rightarrow> analyzer \<Rightarrow> dict list \<times> analyzer" where
  "run_items [] batch_id self = ([], self)"
| "run_items (item # items) batch_id self =
     (case process_single_item item batch_id self of
        (result, self1) \<Rightarrow>
          (case run_items items batch_id self1 of
             (results, self2) \<Rightarrow>
               ((case result of
                   Some d \<Rightarrow> if d \<noteq> [] then [d] else []
                 | None \<Rightarrow> []) @ results, self2)))"

definition process_batch ::
  "((nat \<times> row) list \<Rightarrow> (nat \<times> row) list) \<Rightarrow> (nat \<times> row) list \<Rightarrow> int \<Rightarrow> analyzer
     \<Rightarrow> dict list \<times> analyzer" where
  "process_batch completion data_batch batch_id self =
     run_items (completion data_batch) batch_id self"

definition save_batch_results :: "dict list \<Rightarrow> int \<Rightarrow> analyzer \<Rightarrow> analyzer" where
  "save_batch_results results batch_id self =
     write_file (ustr ''batch_'' @ py_str_int batch_id @ ustr ''_results.json'')
       (JArr (map JObj results)) self"

text \<open>
  Iterating over an object, as \<open>for keyword in keywords\<close> and \<open>list.extend\<close> do: the items of
  a list, the keys of a dict, the characters of a string; anything else raises \<open>TypeError\<close>.
\<close>

datatype py_error = TypeError | ZeroDivisionError

fun py_iter :: "json \<Rightarrow> py_error + json list" where
  "py_iter (JArr xs) = Inr xs"
| "py_iter (JObj d) = Inr (map (\<lambda>kv. JStr (fst kv)) d)"
| "py_iter (JStr s) = Inr (map (\<lambda>c. JStr [c]) s)"
| "py_iter _ = Inl TypeError"

text \<open>\<open>load_existing_results\<close>: a file that cannot be loaded is logged and skipped.\<close>

definition load_existing_results :: "analyzer \<Rightarrow> json list" where
  "load_existing_results self =
     concat (map (\<lambda>(filename, batch_results).
        if endswith filename (ustr ''_results.json'')
        then (case py_iter batch_results of Inr xs \<Rightarrow> xs | Inl e \<Rightarrow> [])
        else []) (files self))"

section \<open>The summary\<close>

text \<open>
  The three dicts \<open>generate_summary\<close> fills. Their keys are compared as JSON values; Python
  compares keys with \<open>==\<close>, which also identifies the numbers \<open>1\<close>, \<open>1.0\<close> and \<open>True\<close>, so
  the theorems on counting below are about string keys. A list or a dict
  is not hashable and cannot be a key.
\<close>

record tallies =
  classification_dist :: "(json \<times> nat) list"
  pattern_analysis :: "(json \<times> json list) list"
  keyword_frequency :: "(json \<times> nat) list"

fun hashable :: "json \<Rightarrow> bool" where
  "hashable (JArr xs) = False"
| "hashable (JObj d) = False"
| "hashable _ = True"

text \<open>\<open>d.get(key, default)\<close> and \<open>d[k] = d.get(k, 0) + 1\<close>.\<close>

definition dict_get :: "('k \<times> 'v) list \<Rightarrow> 'k \<Rightarrow> 'v \<Rightarrow> 'v" where
  "dict_get d k dflt = (case map_of d k of None \<Rightarrow> dflt | Some v \<Rightarrow> v)"

definition bump :: "'k \<Rightarrow> ('k \<times> nat) list \<Rightarrow> ('k \<times> nat) list" where
  "bump k d = AList.update k (dict_get d k 0 + 1) d"

fun count_keywords :: "json list \<Rightarrow> (json \<times> nat) list \<Rightarrow> py_error + (json \<times> nat) list" where
  "count_keywords [] kf = Inr kf"
| "count_keywords (keyword # keywords) kf =
     (if hashable keyword then count_keywords keywords (bump keyword kf) else Inl TypeError)"

definition has_error :: "dict \<Rightarrow> bool" where
  "has_error result = (map_of result (ustr ''error'') \<noteq> None)"

text \<open>The body of \<open>for result in results\<close>.\<close>

definition tally :: "dict \<Rightarrow> tallies \<Rightarrow> py_error + tallies" where
  "tally result t =
     (if has_error result then Inr t
      else
        (let orig_class = dict_get result (ustr ''original_classification'') (JStr (ustr ''unknown''))
         in if \<not> hashable orig_class then Inl TypeError
            else
              (let cd = bump orig_class (classification_dist t);
                   pattern = dict_get result (ustr ''context_pattern'') (JStr []);
                   pa = (if py_truthy pattern
                         then AList.update orig_class
                                (dict_get (pattern_analysis t) orig_class [] @ [pattern])
                                (pattern_analysis t)
                         else pattern_analysis t);
                   keywords = dict_get result (ustr ''supporting_keywords'') (JArr [])
               in case py_iter keywords of
                    Inl e \<Rightarrow> Inl e
                  | Inr ks \<Rightarrow>
                      (case count_keywords ks (keyword_frequency t) of
                         Inl e \<Rightarrow> Inl e
                       | Inr kf \<Rightarrow>
                           Inr \<lparr>classification_dist = cd, pattern_analysis = pa,
                                keyword_frequency = kf\<rparr>))))"

fun tally_all :: "dict list \<Rightarrow> tallies \<Rightarrow> py_error + tallies" where
  "tally_all [] t = Inr t"
| "tally_all (result # results) t =
     (case tally result t of Inl e \<Rightarrow> Inl e | Inr t' \<Rightarrow> tally_all results t')"

record accuracy =
  total_analyzed :: nat
  correct_classifications :: nat
  incorrect_classifications :: nat

record summary =
  classification_distribution :: "(json \<times> nat) list"
  top_keywords :: "(json \<times> nat) list"
  context_patterns_by_type :: "(json \<times> json list) list"
  accuracy_analysis :: "accuracy option"

text \<open>\<open>NoValidResults\<close> is the dict \<open>{"error": \<dots>}\<close> returned for an empty list.\<close>

datatype summary_result = NoValidResults | Summary summary

text \<open>
  \<open>sorted(items, key=lambda x: x[1], reverse=True)\<close> is a stable sort by falling count:
  items with the same count keep their order. \<open>sort_key\<close> is stable.
\<close>

definition sorted_by_count_desc :: "('k \<times> nat) list \<Rightarrow> ('k \<times> nat) list" where
  "sorted_by_count_desc items = sort_key (\<lambda>x. - int (snd x)) items"

definition is_correct :: "dict \<Rightarrow> bool" where
  "is_correct r = py_truthy (dict_get r (ustr ''is_correct_classification'') (JBool True))"

definition generate_summary :: "'a analyzer_scheme \<Rightarrow> dict list \<Rightarrow> py_error + summary_result" where
  "generate_summary self results =
     (if results = [] then Inr NoValidResults
      else
        (case tally_all results
                \<lparr>classification_dist = [], pattern_analysis = [], keyword_frequency = []\<rparr> of
           Inl e \<Rightarrow> Inl e
         | Inr t \<Rightarrow>
             Inr (Summary
               \<lparr>classification_distribution = classification_dist t,
                top_keywords = take 20 (sorted_by_count_desc (keyword_frequency t)),
                context_patterns_by_type = pattern_analysis t,
                accuracy_analysis =
                  (if enable_mislabel_analysis self
                   then Some \<lparr>total_analyzed = length (filter (\<lambda>r. \<not> has_error r) results),
                              correct_classifications =
                                length (filter (\<lambda>r. \<not> has_error r \<and> is_correct r) results),
                              incorrect_classifications =
                                length (filter (\<lambda>r. \<not> has_error r \<and> \<not> is_correct r) results)\<rparr>
                   else None)\<rparr>)))"

section \<open>\<open>analyze_dataset\<close>\<close>

text \<open>What \<open>pd.read_parquet\<close> gives: an exception, or a frame with its columns and rows.\<close>

datatype parquet = Unreadable pystr | Frame "pystr list" "row list"

record final_results =
  final_summary :: summary_result
  detailed_results :: "dict list"
  final_failed_items :: "json list"
  total_processed :: nat
  total_failed :: nat
  final_batch_size :: int

text \<open>
  The two early returns \<open>{"error": \<dots>}\<close> carry what their message is built from; \<open>Final\<close> is
  the dict returned at the end (without the time of day in its metadata), which is also
  what the run writes to \<open>final_analysis_results.json\<close>, a file outside \<open>temp_dir\<close>.
\<close>

datatype run_result = ReadFailed pystr | MissingColumns "pystr list" | Final final_results

definition required_columns :: "pystr list" where
  "required_columns = [ustr ''target_dataset_id'', ustr ''article_id'',
                       ustr ''aggregated_text'', ustr ''type'']"

definition checkpoint :: "int \<Rightarrow> dict list \<Rightarrow> analyzer \<Rightarrow> json" where
  "checkpoint batch_num all_results self =
     JObj [(ustr ''last_completed_batch'', JInt batch_num),
           (ustr ''total_completed'', JInt (int (length all_results))),
           (ustr ''failed_items'', JArr (failed_items self))]"

text \<open>
  The body of \<open>for batch_num in range(start_from_batch, total_batches)\<close>, over the batch
  numbers still to run, with the accumulator \<open>all_results\<close>. The checkpoint is written
  without the time of day.
\<close>

fun batch_loop ::
  "((nat \<times> row) list \<Rightarrow> (nat \<times> row) list) \<Rightarrow> row list \<Rightarrow> int \<Rightarrow> int list \<Rightarrow> dict list
     \<Rightarrow> analyzer \<Rightarrow> dict list \<times> analyzer" where
  "batch_loop completion df batch_size [] all_results self = (all_results, self)"
| "batch_loop completion df batch_size (batch_num # rest) all_results self =
     (let batch_data = batch_slice (zip [0..<length df] df) batch_size batch_num
      in case process_batch completion batch_data batch_num self of
           (batch_results, self1) \<Rightarrow>
             (let saved = (if batch_results \<noteq> []
                           then save_batch_results batch_results batch_num self1 else self1);
                  all_results' = (if batch_results \<noteq> []
                                  then all_results @ batch_results else all_results);
                  self2 = write_file (ustr ''checkpoint.json'')
                            (checkpoint batch_num all_results' saved) saved
              in batch_loop completion df batch_size rest all_results' self2))"

text \<open>
  \<open>analyze_dataset\<close>, with the analyzer it leaves. \<open>existing_results\<close> is loaded when
  \<open>start_from_batch > 0\<close>; the source then only logs its length, and starts the
  accumulator \<open>all_results\<close> empty.
\<close>

definition analyze_dataset ::
  "((nat \<times> row) list \<Rightarrow> (nat \<times> row) list) \<Rightarrow> parquet \<Rightarrow> int \<Rightarrow> int \<Rightarrow> analyzer
     \<Rightarrow> (py_error + run_result) \<times> analyzer" where
  "analyze_dataset completion parquet_file batch_size start_from_batch self =
     (case parquet_file of
        Unreadable e \<Rightarrow> (Inr (ReadFailed e), self)
      | Frame columns df \<Rightarrow>
          (let missing_columns = filter (\<lambda>col. col \<notin> set columns) required_columns
           in if missing_columns \<noteq> [] then (Inr (MissingColumns missing_columns), self)
              else
                (let existing_results =
                       (if start_from_batch > 0 then load_existing_results self else []);
                     all_results = []
                 in if batch_size = 0 then (Inl ZeroDivisionError, self)
                    else
                      (case batch_loop completion df batch_size
                              (py_range start_from_batch (total_batches (length df) batch_size))
                              all_results self of
                         (all_results, self') \<Rightarrow>
                           (case generate_summary self' all_results of
                              Inl e \<Rightarrow> (Inl e, self')
                            | Inr summary \<Rightarrow>
                                (Inr (Final
                                   \<lparr>final_summary = summary,
                                    detailed_results = all_results,
                                    final_failed_items = failed_items self',
                                    total_processed = length all_results,
                                    total_failed = length (failed_items self'),
                                    final_batch_size = batch_size\<rparr>), self'))))))"

text \<open>
  The values written to \<open>checkpoint.json\<close>, oldest first, and the \<open>last_completed_batch\<close>
  of such a value.
\<close>

definition checkpoints :: "analyzer \<Rightarrow> json list" where
  "checkpoints self = map snd (filter (\<lambda>w. fst w = ustr ''checkpoint.json'') (writes self))"

fun last_completed_batch :: "json \<Rightarrow> int option" where
  "last_completed_batch (JObj d) =
     (case map_of d (ustr ''last_completed_batch'') of Some (JInt i) \<Rightarrow> Some i | _ \<Rightarrow> None)"
| "last_completed_batch _ = None"

section \<open>A small run\<close>

text \<open>
  Three rows in batches of two. The client answers \<open>{"a":1}\<close>, except for the row whose
  dataset id is \<open>e\<close>, which it answers with the empty object.
\<close>

definition demo_row :: "pystr \<Rightarrow> row" where
  "demo_row t = \<lparr>target_dataset_id = t, article_id = ustr ''a'', aggregated_text = ustr ''t'',
                 type_label = ustr ''Primary''\<rparr>"

fun demo_client :: "prompt \<Rightarrow> nat \<Rightarrow> client_outcome" where
  "demo_client (Prompt m t a x l) k =
     (if t = ustr ''e'' then Responds (ustr ''{}'') else Responds (ustr ''{\"a\":1}''))"

definition demo_frame :: parquet where
  "demo_frame = Frame required_columns
                  [demo_row (ustr ''x''), demo_row (ustr ''y''), demo_row (ustr ''e'')]"

text \<open>Four results: judged correct, judged incorrect, not judged, and an error result.\<close>

definition demo_results :: "dict list" where
  "demo_results =
     [[(ustr ''is_correct_classification'', JBool True)],
      [(ustr ''is_correct_classification'', JBool False)],
      [(ustr ''original_classification'', JStr (ustr ''Primary''))],
      [(ustr ''error'', JStr (ustr ''boom'')), (ustr ''item_id'', JStr (ustr ''0_3''))]]"

section \<open>The keyword table in the words of the specification\<close>

text \<open>
  The keywords of a result, the keywords of all results without an \<open>error\<close> key put in one
  list, the distinct elements of a list in the order of their first occurrence, and the
  table that gives each keyword, in that order, the number of its occurrences.
\<close>

definition keywords_of :: "dict \<Rightarrow> json list" where
  "keywords_of r =
     (case py_iter (dict_get r (ustr ''supporting_keywords'') (JArr [])) of
        Inr ks \<Rightarrow> ks
      | Inl e \<Rightarrow> [])"

definition flattened_keywords :: "dict list \<Rightarrow> json list" where
  "flattened_keywords results = concat (map keywords_of (filter (\<lambda>r. \<not> has_error r) results))"

definition first_seen :: "'a list \<Rightarrow> 'a list" where
  "first_seen xs = rev (remdups (rev xs))"

definition keyword_counts :: "dict list \<Rightarrow> (json \<times> nat) list" where
  "keyword_counts results =
     map (\<lambda>k. (k, count_list (flattened_keywords results) k))
       (first_seen (flattened_keywords results))"

text \<open>The keyword lists \<open>[["x", "y"], ["x"]]\<close>.\<close>

definition demo_keyword_results :: "dict list" where
  "demo_keyword_results =
     [[(ustr ''supporting_keywords'', JArr [JStr (ustr ''x''), JStr (ustr ''y'')])],
      [(ustr ''supporting_keywords'', JArr [JStr (ustr ''x'')])]]"

section \<open>Resuming a run\<close>

text \<open>
  The row indices of a list of results, and the final results of a run. \<open>interrupted\<close> is
  the analyzer left by a run of the batch loop over the batches \<open>0, \<dots>, k\<close> only: the
  state in which a run interrupted after batch \<open>k\<close> leaves the directory.
\<close>

definition row_index :: "dict \<Rightarrow> json" where
  "row_index r =
     (case map_of r (ustr ''original_data'') of
        Some (JObj d) \<Rightarrow> dict_get d (ustr ''index'') JNull
      | _ \<Rightarrow> JNull)"

fun processed_indices :: "(py_error + run_result) \<times> analyzer \<Rightarrow> json list option" where
  "processed_indices (Inr (Final f), self) = Some (map row_index (detailed_results f))"
| "processed_indices _ = None"

fun processed_count :: "(py_error + run_result) \<times> analyzer \<Rightarrow> nat option" where
  "processed_count (Inr (Final f), self) = Some (total_processed f)"
| "processed_count _ = None"

definition interrupted ::
  "((nat \<times> row) list \<Rightarrow> (nat \<times> row) list) \<Rightarrow> row list \<Rightarrow> int \<Rightarrow> int \<Rightarrow> analyzer \<Rightarrow> analyzer" where
  "interrupted completion df batch_size k self =
     snd (batch_loop completion df batch_size (py_range 0 (k + 1)) [] self)"

definition resume_rows :: "row list" where
  "resume_rows = [demo_row (ustr ''x''), demo_row (ustr ''y''), demo_row (ustr ''z'')]"


section \<open>Batches partition the rows\<close>

lemma take_drop_upt:
  assumes "l \<le> R" "h \<le> R"
  shows "take (h - l) (drop l [0..<R]) = [l..<h]"
proof (cases "l \<le> h")
  case True
  have "l + (h - l) \<le> R" using True assms by simp
  then have "take (h - l) [l..<R] = [l..<l + (h - l)]" by (rule take_upt)
  moreover have "l + (h - l) = h" using True by simp
  moreover have "drop l [0..<R] = [l..<R]" by simp
  ultimately show ?thesis by simp
next
  case False
  then show ?thesis by simp
qed

lemma py_slice_upt:
  "py_slice [0..<R] (int lo) (int hi) = [lo..<min hi R]"
proof -
  have "py_slice [0..<R] (int lo) (int hi) = take (min R hi - min R lo) (drop (min R lo) [0..<R])"
    by (simp add: py_slice_def py_clip_def Let_def)
  also have "\<dots> = [min R lo..<min R hi]"
    by (rule take_drop_upt) simp_all
  also have "\<dots> = [lo..<min hi R]"
    by (cases "lo \<le> R") (simp_all add: min.commute)
  finally show ?thesis .
qed

lemma batch_slice_upt:
  assumes "1 \<le> B"
  shows "batch_slice [0..<R] B (int k) = [k * nat B..<min (Suc k * nat B) R]"
proof -
  define C where "C = nat B"
  have B: "B = int C" using assms by (simp add: C_def)
  have s: "start_idx B (int k) = int (k * C)"
    unfolding start_idx_def B by simp
  have "(int k + 1) * int C = int (Suc k * C)"
    by (simp add: algebra_simps)
  then have e: "end_idx R B (int k) = int (min (Suc k * C) R)"
    unfolding end_idx_def B by (simp only: of_nat_min)
  have "batch_slice [0..<R] B (int k) = py_slice [0..<R] (int (k * C)) (int (min (Suc k * C) R))"
    unfolding batch_slice_def by (simp only: s e length_upt minus_nat.diff_0)
  also have "\<dots> = [k * C..<min (min (Suc k * C) R) R]"
    by (rule py_slice_upt)
  finally show ?thesis by (simp add: C_def)
qed

lemma concat_batches_prefix:
  assumes "1 \<le> B"
  shows "concat (map (\<lambda>k. batch_slice [0..<R] B (int k)) [0..<n]) = [0..<min (n * nat B) R]"
proof (induction n)
  case 0
  show ?case by simp
next
  case (Suc n)
  have step: "batch_slice [0..<R] B (int n) = [n * nat B..<min (Suc n * nat B) R]"
    by (rule batch_slice_upt [OF assms])
  show ?case
  proof (cases "n * nat B \<le> R")
    case True
    have "n * nat B \<le> min (Suc n * nat B) R" using True by simp
    then have "[0..<n * nat B] @ [n * nat B..<min (Suc n * nat B) R] = [0..<min (Suc n * nat B) R]"
      using upt_add_eq_append [of 0 "n * nat B" "min (Suc n * nat B) R - n * nat B"] by simp
    then show ?thesis using Suc.IH step True by simp
  next
    case False
    then have "min (n * nat B) R = R" "min (Suc n * nat B) R = R" by simp_all
    then show ?thesis using Suc.IH step False by simp
  qed
qed

lemma total_batches_ceiling:
  assumes "1 \<le> B"
  shows "total_batches R B = \<lceil>real R / real_of_int B\<rceil>"
proof -
  have pos: "0 < B" using assms by simp
  have "\<lceil>real_of_int (int R) / real_of_int B\<rceil> = - (- int R div B)"
    by (rule ceiling_divide_eq_div)
  also have "\<dots> = (int R + B - 1) div B"
  proof (cases "int R mod B = 0")
    case True
    have "int R + B - 1 = B * (int R div B) + (B - 1)"
      using True by (metis add_diff_eq add.right_neutral mult_div_mod_eq add.commute add.assoc diff_add_eq)
    then have "(int R + B - 1) div B = int R div B"
      using pos by (intro int_div_pos_eq [where r = "B - 1"]) simp_all
    then show ?thesis using True pos by (simp add: zdiv_zminus1_eq_if)
  next
    case False
    have "0 \<le> int R mod B" using pos by (rule pos_mod_sign)
    then have r0: "0 < int R mod B" using False by linarith
    have r1: "int R mod B < B" using pos by (rule pos_mod_bound)
    note r = r0 r1
    have "int R = B * (int R div B) + int R mod B" by simp
    then have "int R + B - 1 = B * (int R div B + 1) + (int R mod B - 1)"
      by (simp add: algebra_simps)
    then have "(int R + B - 1) div B = int R div B + 1"
      using r by (intro int_div_pos_eq [where r = "int R mod B - 1"]) simp_all
    then show ?thesis using False pos by (simp add: zdiv_zminus1_eq_if)
  qed
  finally show ?thesis by (simp add: total_batches_def)
qed

lemma total_batches_covers:
  assumes "1 \<le> B"
  shows "0 \<le> total_batches R B" and "R \<le> nat (total_batches R B) * nat B"
proof -
  have pos: "0 < B" using assms by simp
  define T where "T = total_batches R B"
  have T: "T = (int R + B - 1) div B" by (simp add: T_def total_batches_def)
  have "0 \<le> int R + B - 1" using assms by simp
  then show T0: "0 \<le> total_batches R B"
    using pos unfolding total_batches_def by (simp add: pos_imp_zdiv_nonneg_iff)
  have "(int R + B - 1) mod B < B" using pos by (rule pos_mod_bound)
  moreover have "T * B = (int R + B - 1) - (int R + B - 1) mod B"
    unfolding T by (simp add: algebra_simps minus_mod_eq_mult_div)
  ultimately have "int R \<le> T * B" by linarith
  moreover have "T * B = int (nat T * nat B)"
    using T0 pos by (simp add: T_def)
  ultimately have "int R \<le> int (nat T * nat B)" by simp
  then show "R \<le> nat (total_batches R B) * nat B"
    unfolding T_def by (simp only: of_nat_le_iff)
qed

lemma py_range_from_0: "py_range 0 t = map int [0..<nat t]"
  by (simp add: py_range_def)

lemma sorted_wrt_py_range: "sorted_wrt (<) (py_range a b)"
  by (simp add: py_range_def sorted_wrt_map sorted_wrt_iff_nth_less)

lemma batch_positions:
  assumes "1 \<le> B"
  shows "total_batches R B = \<lceil>real R / real_of_int B\<rceil> \<and>
         concat (map (batch_slice [0..<R] B) (py_range 0 (total_batches R B))) = [0..<R] \<and>
         (\<forall>batch_num \<in> set (py_range 0 (total_batches R B)).
            batch_slice [0..<R] B batch_num
              = [nat (batch_num * B)..<nat (min ((batch_num + 1) * B) (int R))])"
proof (intro conjI ballI)
  show "total_batches R B = \<lceil>real R / real_of_int B\<rceil>"
    by (rule total_batches_ceiling [OF assms])
next
  have "concat (map (batch_slice [0..<R] B) (py_range 0 (total_batches R B)))
      = concat (map (\<lambda>k. batch_slice [0..<R] B (int k)) [0..<nat (total_batches R B)])"
    by (simp add: py_range_from_0 comp_def)
  also have "\<dots> = [0..<min (nat (total_batches R B) * nat B) R]"
    by (rule concat_batches_prefix [OF assms])
  also have "\<dots> = [0..<R]"
    using total_batches_covers(2) [OF assms, of R] by (simp add: min.absorb2)
  finally show "concat (map (batch_slice [0..<R] B) (py_range 0 (total_batches R B))) = [0..<R]" .
next
  fix batch_num assume "batch_num \<in> set (py_range 0 (total_batches R B))"
  then obtain k where k: "batch_num = int k" by (auto simp: py_range_from_0)
  have B: "B = int (nat B)" using assms by simp
  have "batch_slice [0..<R] B (int k) = [k * nat B..<min (Suc k * nat B) R]"
    by (rule batch_slice_upt [OF assms])
  moreover have "nat (int k * B) = k * nat B" by (subst B) (simp add: nat_mult_distrib)
  moreover have "nat (min ((int k + 1) * B) (int R)) = min (Suc k * nat B) R"
  proof -
    have "(int k + 1) * B = int (Suc k * nat B)" by (subst B) (simp add: algebra_simps)
    then have "min ((int k + 1) * B) (int R) = int (min (Suc k * nat B) R)" by (simp only: of_nat_min)
    then show ?thesis by simp
  qed
  ultimately show "batch_slice [0..<R] B batch_num
      = [nat (batch_num * B)..<nat (min ((batch_num + 1) * B) (int R))]"
    by (simp add: k)
qed

lemma py_slice_map: "py_slice (map f xs) a b = map f (py_slice xs a b)"
  by (simp add: py_slice_def Let_def take_map drop_map)

lemma batch_slice_map: "batch_slice (map f xs) B b = map f (batch_slice xs B b)"
  by (simp add: batch_slice_def py_slice_map)

text \<open>
  C5. For a frame \<open>df\<close> of \<open>R\<close> rows and a batch size \<open>B \<ge> 1\<close>, \<open>total_batches\<close> is
  \<open>\<lceil>R / B\<rceil>\<close>; the slice of batch \<open>batch_num\<close> holds exactly the rows at the positions from
  \<open>batch_num * B\<close> up to, not including, \<open>min ((batch_num + 1) * B) R\<close>; and the slices of
  the batches \<open>0, \<dots>, total_batches - 1\<close>, one after the other, are the rows of the frame
  with their positions, each exactly once and in order: no overlap and no gap.
\<close>

theorem batches_partition_rows:
  assumes "1 \<le> batch_size"
  shows "total_batches (length df) batch_size
           = \<lceil>real (length df) / real_of_int batch_size\<rceil> \<and>
         concat (map (batch_slice (zip [0..<length df] df) batch_size)
                   (py_range 0 (total_batches (length df) batch_size)))
           = zip [0..<length df] df \<and>
         (\<forall>batch_num \<in> set (py_range 0 (total_batches (length df) batch_size)).
            map fst (batch_slice (zip [0..<length df] df) batch_size batch_num)
              = [nat (batch_num * batch_size)
                 ..<nat (min ((batch_num + 1) * batch_size) (int (length df)))])"
proof (intro conjI ballI)
  let ?n = "length df"
  let ?rows = "zip [0..<?n] df"
  let ?nums = "py_range 0 (total_batches ?n batch_size)"
  note pos = batch_positions [OF assms, of ?n]
  note pos1 = pos [THEN conjunct1]
  note pos2 = pos [THEN conjunct2, THEN conjunct1]
  note pos3 = pos [THEN conjunct2, THEN conjunct2]
  show "total_batches ?n batch_size = \<lceil>real ?n / real_of_int batch_size\<rceil>"
    by (rule pos1)
  have len: "length ?rows = ?n" by simp
  have rows: "map ((!) ?rows) [0..<?n] = ?rows"
    using map_nth [of ?rows] by (simp only: len)
  have slice: "batch_slice ?rows batch_size b = map ((!) ?rows) (batch_slice [0..<?n] batch_size b)"
    for b
    using batch_slice_map [of "(!) ?rows" "[0..<?n]" batch_size b] by (simp only: rows)
  have "batch_slice ?rows batch_size
          = (\<lambda>b. map ((!) ?rows) (batch_slice [0..<?n] batch_size b))"
    by (rule ext) (rule slice)
  then have "concat (map (batch_slice ?rows batch_size) ?nums)
      = map ((!) ?rows) (concat (map (batch_slice [0..<?n] batch_size) ?nums))"
    by (simp add: map_concat comp_def)
  also have "\<dots> = map ((!) ?rows) [0..<?n]" by (simp only: pos2)
  finally show "concat (map (batch_slice ?rows batch_size) ?nums) = ?rows"
    by (simp only: rows)
  fix batch_num assume b: "batch_num \<in> set ?nums"
  have "map fst ?rows = [0..<?n]" by simp
  then have "map fst (batch_slice ?rows batch_size batch_num)
               = batch_slice [0..<?n] batch_size batch_num"
    using batch_slice_map [of fst ?rows batch_size batch_num] by simp
  then show "map fst (batch_slice ?rows batch_size batch_num)
      = [nat (batch_num * batch_size)..<nat (min ((batch_num + 1) * batch_size) (int ?n))]"
    using pos3 b by simp
qed

theorem batches_partition_rows_witness:
  "(1::int) \<le> 2 \<and> total_batches (length [7, 8, 9::nat]) 2 = 2 \<and>
   map (batch_slice (zip [0..<length [7, 8, 9::nat]] [7, 8, 9::nat]) 2)
     (py_range 0 (total_batches (length [7, 8, 9::nat]) 2)) = [[(0, 7), (1, 8)], [(2, 9)]] \<and>
   concat (map (batch_slice (zip [0..<length [7, 8, 9::nat]] [7, 8, 9::nat]) 2)
     (py_range 0 (total_batches (length [7, 8, 9::nat]) 2))) = zip [0..<length [7, 8, 9::nat]] [7, 8, 9::nat]"
proof -
  have h: "(1::int) \<le> 2" by simp
  have t: "total_batches (length [7, 8, 9::nat]) 2 = 2" by (simp add: total_batches_def)
  have r: "py_range 0 2 = [0, 1]" by (simp add: py_range_def upt_rec)
  have s: "map (batch_slice (zip [0..<length [7, 8, 9::nat]] [7, 8, 9::nat]) 2) [0, 1]
             = [[(0, 7), (1, 8)], [(2, 9)]]"
    by (simp add: batch_slice_def start_idx_def end_idx_def py_slice_def py_clip_def upt_rec)
  show ?thesis
    using batches_partition_rows [OF h, of "[7, 8, 9::nat]"] h t r s by simp
qed

section \<open>The retry loop\<close>

lemma retry_loop_all_raise:
  assumes "k < n" and "\<And>j. k \<le> j \<Longrightarrow> j < n \<Longrightarrow> respond j = Raises (msg j)"
  shows "retry_loop respond item_id (int n) [k..<n] =
           (Some (call_error (msg (n - 1)) item_id),
            concat (map (\<lambda>a. [Called a, Slept (2 ^ a)]) [k..<n - 1]) @ [Called (n - 1)])"
  using assms
proof (induction "n - k" arbitrary: k)
  case 0
  then show ?case by simp
next
  case (Suc d)
  have up: "[k..<n] = k # [Suc k..<n]" using Suc.prems(1) by (simp add: upt_conv_Cons)
  have rk: "respond k = Raises (msg k)" using Suc.prems by simp
  show ?case
  proof (cases "Suc k < n")
    case True
    have d: "d = n - Suc k" using Suc.hyps(2) by simp
    have ih: "retry_loop respond item_id (int n) [Suc k..<n] =
           (Some (call_error (msg (n - 1)) item_id),
            concat (map (\<lambda>a. [Called a, Slept (2 ^ a)]) [Suc k..<n - 1]) @ [Called (n - 1)])"
      using Suc.hyps(1) [OF d True] Suc.prems(2) by simp
    have lt: "int k < int n - 1" using True by simp
    have up2: "[k..<n - Suc 0] = k # [Suc k..<n - Suc 0]" using True by (simp add: upt_conv_Cons)
    show ?thesis
      unfolding up using rk lt ih by (simp add: up2)
  next
    case False
    then have kn: "n = Suc k" using Suc.prems(1) by simp
    show ?thesis
      unfolding up unfolding kn using rk by (simp add: call_error_def)
  qed
qed

lemma retry_loop_all_unparsable:
  assumes "k < n"
    and "\<And>j. k \<le> j \<Longrightarrow> j < n \<Longrightarrow>
           respond j = Responds (content j) \<and> json_loads (extract_json_content (content j)) = None"
  shows "retry_loop respond item_id (int n) [k..<n] =
           (Some (parse_fallback (content (n - 1)) item_id), map Called [k..<n])"
  using assms
proof (induction "n - k" arbitrary: k)
  case 0
  then show ?case by simp
next
  case (Suc d)
  have up: "[k..<n] = k # [Suc k..<n]" using Suc.prems(1) by (simp add: upt_conv_Cons)
  have rk: "respond k = Responds (content k)"
    "json_loads (extract_json_content (content k)) = None" using Suc.prems by simp_all
  show ?case
  proof (cases "Suc k < n")
    case True
    have d: "d = n - Suc k" using Suc.hyps(2) by simp
    have ih: "retry_loop respond item_id (int n) [Suc k..<n] =
           (Some (parse_fallback (content (n - 1)) item_id), map Called [Suc k..<n])"
      using Suc.hyps(1) [OF d True] Suc.prems(2) by simp
    have ne: "int k \<noteq> int n - 1" using True by simp
    show ?thesis
      unfolding up using rk ne ih by simp
  next
    case False
    then have kn: "n = Suc k" using Suc.prems(1) by simp
    show ?thesis
      unfolding up unfolding kn using rk by (simp add: parse_fallback_def)
  qed
qed

lemma retry_loop_returns_in_loop:
  assumes "k < n"
  shows "\<exists>result evs. retry_loop respond item_id (int n) [k..<n] = (Some result, evs) \<and>
           ((\<exists>j content. k \<le> j \<and> j < n \<and> respond j = Responds content \<and>
                 json_loads (extract_json_content content) = Some result) \<or>
            (\<exists>content. respond (n - 1) = Responds content \<and>
                 result = parse_fallback content item_id) \<or>
            (\<exists>e. respond (n - 1) = Raises e \<and> result = call_error e item_id))"
  using assms
proof (induction "n - k" arbitrary: k)
  case 0
  then show ?case by simp
next
  case (Suc d)
  have up: "[k..<n] = k # [Suc k..<n]" using Suc.prems(1) by (simp add: upt_conv_Cons)
  show ?case
  proof (cases "Suc k < n")
    case True
    have d: "d = n - Suc k" using Suc.hyps(2) by simp
    obtain result evs where ih: "retry_loop respond item_id (int n) [Suc k..<n] = (Some result, evs)"
      and alt: "(\<exists>j content. Suc k \<le> j \<and> j < n \<and> respond j = Responds content \<and>
                 json_loads (extract_json_content content) = Some result) \<or>
            (\<exists>content. respond (n - 1) = Responds content \<and>
                 result = parse_fallback content item_id) \<or>
            (\<exists>e. respond (n - 1) = Raises e \<and> result = call_error e item_id)"
      using Suc.hyps(1) [OF d True] by blast
    have alt': "(\<exists>j content. k \<le> j \<and> j < n \<and> respond j = Responds content \<and>
                 json_loads (extract_json_content content) = Some result) \<or>
            (\<exists>content. respond (n - 1) = Responds content \<and>
                 result = parse_fallback content item_id) \<or>
            (\<exists>e. respond (n - 1) = Raises e \<and> result = call_error e item_id)"
      using alt by (meson Suc_leD)
    have ne: "int k \<noteq> int n - 1" "int k < int n - 1" using True by simp_all
    show ?thesis
    proof (cases "respond k")
      case (Raises e)
      then show ?thesis unfolding up using ne ih alt' by simp
    next
      case (Responds content)
      show ?thesis
      proof (cases "json_loads (extract_json_content content)")
        case None
        then show ?thesis unfolding up using Responds ne ih alt' by simp
      next
        case (Some v)
        have "k \<le> k \<and> k < n \<and> respond k = Responds content \<and>
                 json_loads (extract_json_content content) = Some v"
          using Some Responds Suc.prems by simp
        then show ?thesis unfolding up using Responds Some by auto
      qed
    qed
  next
    case False
    then have kn: "n = Suc k" using Suc.prems(1) by simp
    show ?thesis
    proof (cases "respond k")
      case (Raises e)
      then show ?thesis unfolding up unfolding kn by (simp add: call_error_def)
    next
      case (Responds content)
      show ?thesis
      proof (cases "json_loads (extract_json_content content)")
        case None
        then show ?thesis unfolding up unfolding kn using Responds by (simp add: parse_fallback_def)
      next
        case (Some v)
        have "k \<le> k \<and> k < n \<and> respond k = Responds content \<and>
                 json_loads (extract_json_content content) = Some v"
          using Some Responds Suc.prems by simp
        then show ?thesis unfolding up using Responds Some by auto
      qed
    qed
  qed
qed

lemma requests_trace:
  "requests (concat (map (\<lambda>a. [Called a, Slept (2 ^ a)]) xs) @ [Called m]) = xs @ [m]"
  by (induction xs) simp_all

lemma sleeps_trace:
  "sleeps (concat (map (\<lambda>a. [Called a, Slept (2 ^ a)]) xs) @ [Called m]) = map (\<lambda>a. 2 ^ a) xs"
  by (induction xs) simp_all

text \<open>
  C3. If the client raises on every request and \<open>max_retries \<ge> 1\<close>, the call makes exactly
  \<open>max_retries\<close> requests, sleeps \<open>2 ^ attempt\<close> after each failed attempt but the last, and
  returns the mapping of \<open>error\<close> to the message of the last exception and of \<open>item_id\<close> to
  the item's id.
\<close>

theorem always_raising_client:
  assumes "1 \<le> max_retries self"
    and "\<forall>k < nat (max_retries self). client self prompt k = Raises (msg k)"
  shows "call_api_with_retry self prompt item_id =
           (JObj [(ustr ''error'', JStr (msg (nat (max_retries self) - 1))),
                  (ustr ''item_id'', JStr item_id)],
            concat (map (\<lambda>attempt. [Called attempt, Slept (2 ^ attempt)])
                      [0..<nat (max_retries self) - 1])
              @ [Called (nat (max_retries self) - 1)]) \<and>
         requests (snd (call_api_with_retry self prompt item_id)) = [0..<nat (max_retries self)] \<and>
         length (requests (snd (call_api_with_retry self prompt item_id))) = nat (max_retries self) \<and>
         sleeps (snd (call_api_with_retry self prompt item_id))
           = map (\<lambda>attempt. 2 ^ attempt) [0..<nat (max_retries self) - 1]"
proof -
  define n where "n = nat (max_retries self)"
  have n: "0 < n" "max_retries self = int n" using assms(1) by (simp_all add: n_def)
  have "retry_loop (client self prompt) item_id (int n) [0..<n] =
           (Some (call_error (msg (n - 1)) item_id),
            concat (map (\<lambda>a. [Called a, Slept (2 ^ a)]) [0..<n - 1]) @ [Called (n - 1)])"
    using n(1) assms(2) by (intro retry_loop_all_raise) (simp_all add: n_def)
  then have eq: "call_api_with_retry self prompt item_id =
      (call_error (msg (n - 1)) item_id,
       concat (map (\<lambda>a. [Called a, Slept (2 ^ a)]) [0..<n - 1]) @ [Called (n - 1)])"
    by (simp add: call_api_with_retry_def n(2))
  have "[0..<n - 1] @ [n - 1] = [0..<n]"
    using n(1) by (metis Suc_pred' upt_Suc_append zero_le)
  then show ?thesis
    unfolding eq n_def [symmetric]
    by (simp add: call_error_def requests_trace sleeps_trace del: upt_Suc)
qed

theorem always_raising_client_witness:
  "call_api_with_retry (new_analyzer (\<lambda>p k. Raises (str_nat k)) 3 True []) (Prompt True [] [] [] []) [48]
     = (JObj [(ustr ''error'', JStr [50]), (ustr ''item_id'', JStr [48])],
        [Called 0, Slept 1, Called 1, Slept 2, Called 2])"
proof -
  have m: "max_retries (new_analyzer (\<lambda>p k. Raises (str_nat k)) 3 True []) = 3"
    by (simp add: new_analyzer_def)
  have c: "client (new_analyzer (\<lambda>p k. Raises (str_nat k)) 3 True []) = (\<lambda>p k. Raises (str_nat k))"
    by (simp add: new_analyzer_def)
  have h1: "1 \<le> max_retries (new_analyzer (\<lambda>p k. Raises (str_nat k)) 3 True [])"
    by (simp add: m)
  have h2: "\<forall>k < nat (max_retries (new_analyzer (\<lambda>p k. Raises (str_nat k)) 3 True [])).
      client (new_analyzer (\<lambda>p k. Raises (str_nat k)) 3 True []) (Prompt True [] [] [] []) k
        = Raises (str_nat k)"
    by (simp add: c)
  have u: "[0..<2] = [0, 1]" by (simp add: upt_rec)
  have s: "str_nat 2 = [50]" by (simp add: str_nat.simps)
  show ?thesis
    using always_raising_client [OF h1 h2, of "[48]"] by (simp add: m u s)
qed

text \<open>
  C4. If every request is answered and the text cut out of each answer fails to parse,
  then, \<open>max_retries\<close> being at least 1, the call returns on its last attempt the fallback
  mapping: the parse failure message under \<open>error\<close>, the answer of that attempt under
  \<open>raw_response\<close>, and the \<open>item_id\<close>. It has made \<open>max_retries\<close> requests and has not slept.
\<close>

theorem unparsable_answers_give_fallback:
  assumes "1 \<le> max_retries self"
    and "\<forall>k < nat (max_retries self).
           client self prompt k = Responds (content k) \<and>
           json_loads (extract_json_content (content k)) = None"
  shows "call_api_with_retry self prompt item_id =
           (JObj [(ustr ''error'', JStr json_parse_failed),
                  (ustr ''raw_response'', JStr (content (nat (max_retries self) - 1))),
                  (ustr ''item_id'', JStr item_id)],
            map Called [0..<nat (max_retries self)])"
proof -
  define n where "n = nat (max_retries self)"
  have n: "0 < n" "max_retries self = int n" using assms(1) by (simp_all add: n_def)
  have "retry_loop (client self prompt) item_id (int n) [0..<n] =
           (Some (parse_fallback (content (n - 1)) item_id), map Called [0..<n])"
    using n(1) assms(2) by (intro retry_loop_all_unparsable) (simp_all add: n_def)
  then show ?thesis
    unfolding n_def [symmetric]
    by (simp add: call_api_with_retry_def n(2) parse_fallback_def)
qed

lemma loads_no_json_here: "json_loads (extract_json_content (ustr ''no json here'')) = None"
  by code_simp

theorem unparsable_answers_give_fallback_witness:
  "call_api_with_retry (new_analyzer (\<lambda>p k. Responds (ustr ''no json here'')) 2 True [])
       (Prompt True [] [] [] []) [48]
     = (JObj [(ustr ''error'', JStr json_parse_failed),
              (ustr ''raw_response'', JStr (ustr ''no json here'')),
              (ustr ''item_id'', JStr [48])],
        [Called 0, Called 1])"
proof -
  let ?a = "new_analyzer (\<lambda>p k. Responds (ustr ''no json here'')) 2 True []"
  have m: "max_retries ?a = 2" by (simp add: new_analyzer_def)
  have c: "client ?a = (\<lambda>p k. Responds (ustr ''no json here''))"
    by (simp add: new_analyzer_def)
  have h1: "1 \<le> max_retries ?a" by (simp add: m)
  have h2: "\<forall>k < nat (max_retries ?a).
      client ?a (Prompt True [] [] [] []) k = Responds ((\<lambda>k. ustr ''no json here'') k) \<and>
      json_loads (extract_json_content ((\<lambda>k. ustr ''no json here'') k)) = None"
    by (simp add: c loads_no_json_here)
  have u: "[0..<2] = [0, 1]" by (simp add: upt_rec)
  show ?thesis
    using unparsable_answers_give_fallback [OF h1 h2, of "[48]"] by (simp add: m u)
qed

text \<open>
  C6, as the code has it. Provided \<open>max_retries \<ge> 1\<close>, whatever the client does, the loop
  ends by a \<open>return\<close> inside it, so the \<open>return None\<close> after the loop is not reached. The
  value returned is the value parsed from an answer of the client, or the fallback
  mapping for the last answer, or the error mapping for the last exception. A parsed
  value is whatever the answer spells: it need not be a mapping and it can be \<open>None\<close>.
\<close>

theorem retry_loop_returns:
  assumes "1 \<le> max_retries self"
  shows "\<exists>result evs.
           retry_loop (client self prompt) item_id (max_retries self)
               [0..<nat (max_retries self)] = (Some result, evs) \<and>
           call_api_with_retry self prompt item_id = (result, evs) \<and>
           ((\<exists>k content. k < nat (max_retries self) \<and>
                 client self prompt k = Responds content \<and>
                 json_loads (extract_json_content content) = Some result) \<or>
            (\<exists>content. client self prompt (nat (max_retries self) - 1) = Responds content \<and>
                 result = parse_fallback content item_id) \<or>
            (\<exists>e. client self prompt (nat (max_retries self) - 1) = Raises e \<and>
                 result = call_error e item_id))"
proof -
  define n where "n = nat (max_retries self)"
  have n: "0 < n" "max_retries self = int n" using assms(1) by (simp_all add: n_def)
  obtain result evs where
    r: "retry_loop (client self prompt) item_id (int n) [0..<n] = (Some result, evs)"
    and alt: "(\<exists>j content. 0 \<le> j \<and> j < n \<and> client self prompt j = Responds content \<and>
                 json_loads (extract_json_content content) = Some result) \<or>
            (\<exists>content. client self prompt (n - 1) = Responds content \<and>
                 result = parse_fallback content item_id) \<or>
            (\<exists>e. client self prompt (n - 1) = Raises e \<and> result = call_error e item_id)"
    using retry_loop_returns_in_loop [OF n(1), of "client self prompt" item_id] by blast
  have c: "call_api_with_retry self prompt item_id = (result, evs)"
    using r by (simp add: call_api_with_retry_def n(2))
  show ?thesis
    unfolding n_def [symmetric] n(2) using r c alt by auto
qed

lemma loads_null: "json_loads (extract_json_content (ustr ''null'')) = Some JNull"
  by code_simp

lemma loads_list: "json_loads (extract_json_content (ustr ''[1]'')) = Some (JArr [JInt 1])"
  by code_simp

theorem retry_loop_returns_witness:
  "(\<exists>result evs.
      retry_loop (client (new_analyzer (\<lambda>p k. Responds (ustr ''[1]'')) 5 True [])
                    (Prompt True [] [] [] []))
          [48] (max_retries (new_analyzer (\<lambda>p k. Responds (ustr ''[1]'')) 5 True []))
          [0..<nat (max_retries (new_analyzer (\<lambda>p k. Responds (ustr ''[1]'')) 5 True []))]
        = (Some result, evs) \<and>
      call_api_with_retry (new_analyzer (\<lambda>p k. Responds (ustr ''[1]'')) 5 True [])
          (Prompt True [] [] [] []) [48] = (result, evs)) \<and>
   call_api_with_retry (new_analyzer (\<lambda>p k. Responds (ustr ''[1]'')) 5 True [])
      (Prompt True [] [] [] []) [48] = (JArr [JInt 1], [Called 0])"
proof -
  let ?a = "new_analyzer (\<lambda>p k. Responds (ustr ''[1]'')) 5 True []"
  have h: "1 \<le> max_retries ?a" by (simp add: new_analyzer_def)
  have u: "[0..<5] = 0 # [1..<5]" by (simp add: upt_rec)
  have e: "call_api_with_retry ?a (Prompt True [] [] [] []) [48] = (JArr [JInt 1], [Called 0])"
    by (simp add: call_api_with_retry_def new_analyzer_def u loads_list)
  show ?thesis
    using retry_loop_returns [OF h, of "Prompt True [] [] [] []" "[48]"] e by blast
qed

theorem null_answer_returns_None:
  "1 \<le> max_retries (new_analyzer (\<lambda>p k. Responds (ustr ''null'')) 5 True []) \<and>
   call_api_with_retry (new_analyzer (\<lambda>p k. Responds (ustr ''null'')) 5 True [])
      (Prompt True [] [] [] []) [48] = (JNull, [Called 0])"
proof -
  have u: "[0..<5] = 0 # [1..<5]" by (simp add: upt_rec)
  show ?thesis
    by (simp add: call_api_with_retry_def new_analyzer_def u loads_null)
qed

section \<open>Results that count as false\<close>

lemma first_answer_parses:
  assumes "1 \<le> max_retries self"
    and "client self prompt 0 = Responds content"
    and "json_loads (extract_json_content content) = Some result"
  shows "call_api_with_retry self prompt item_id = (result, [Called 0])"
proof -
  have "[0..<nat (max_retries self)] = 0 # [1..<nat (max_retries self)]"
    using assms(1) by (simp add: upt_conv_Cons)
  then show ?thesis
    using assms(2,3) by (simp add: call_api_with_retry_def)
qed

text \<open>
  C10. If \<open>call_api_with_retry\<close> returns a falsy value, \<open>process_single_item\<close> returns
  \<open>None\<close> and leaves the analyzer as it was: no file written, \<open>completed_count\<close> and
  \<open>failed_items\<close> unchanged; the batch gets no result for the row. In particular, when the
  first answer parses to the empty object, \<open>call_api_with_retry\<close> returns \<open>{}\<close> at once,
  after one request, and the row leaves no trace; at any attempt, an answer that parses to
  the empty object ends the loop with \<open>{}\<close>.
\<close>

theorem falsy_result_leaves_no_trace:
  "(\<not> py_truthy (fst (call_api_with_retry self (row_prompt self rw) (item_id_of batch_id index)))
      \<longrightarrow> process_single_item (index, rw) batch_id self = (None, self) \<and>
          run_items [(index, rw)] batch_id self = ([], self)) \<and>
   (1 \<le> max_retries self \<and> client self (row_prompt self rw) 0 = Responds content \<and>
      json_loads (extract_json_content content) = Some (JObj [])
      \<longrightarrow> call_api_with_retry self (row_prompt self rw) (item_id_of batch_id index)
            = (JObj [], [Called 0]) \<and>
          process_single_item (index, rw) batch_id self = (None, self) \<and>
          run_items [(index, rw)] batch_id self = ([], self)) \<and>
   (respond attempt = Responds answer \<and>
      json_loads (extract_json_content answer) = Some (JObj [])
      \<longrightarrow> retry_loop respond item_id retries (attempt # rest)
            = (Some (JObj []), [Called attempt]))"
proof (intro conjI impI)
  assume f: "\<not> py_truthy (fst (call_api_with_retry self (row_prompt self rw)
                 (item_id_of batch_id index)))"
  then show p: "process_single_item (index, rw) batch_id self = (None, self)"
    by (simp add: process_single_item_def Let_def)
  then show "run_items [(index, rw)] batch_id self = ([], self)" by simp
next
  assume a: "1 \<le> max_retries self \<and> client self (row_prompt self rw) 0 = Responds content \<and>
      json_loads (extract_json_content content) = Some (JObj [])"
  then show c: "call_api_with_retry self (row_prompt self rw) (item_id_of batch_id index)
            = (JObj [], [Called 0])"
    using first_answer_parses [of self "row_prompt self rw" content "JObj []"
        "item_id_of batch_id index"] by simp
  then show p: "process_single_item (index, rw) batch_id self = (None, self)"
    by (simp add: process_single_item_def Let_def)
  then show "run_items [(index, rw)] batch_id self = ([], self)" by simp
next
  assume "respond attempt = Responds answer \<and>
      json_loads (extract_json_content answer) = Some (JObj [])"
  then show "retry_loop respond item_id retries (attempt # rest)
            = (Some (JObj []), [Called attempt])"
    by simp
qed

lemma loads_empty_object: "json_loads (extract_json_content (ustr ''{}'')) = Some (JObj [])"
  by code_simp

theorem falsy_result_leaves_no_trace_witness:
  "call_api_with_retry (new_analyzer (\<lambda>p k. Responds (ustr ''{}'')) 5 True [])
       (row_prompt (new_analyzer (\<lambda>p k. Responds (ustr ''{}'')) 5 True [])
          \<lparr>target_dataset_id = [], article_id = [], aggregated_text = [], type_label = []\<rparr>)
       (item_id_of 0 0) = (JObj [], [Called 0]) \<and>
   process_single_item
       (0, \<lparr>target_dataset_id = [], article_id = [], aggregated_text = [], type_label = []\<rparr>) 0
       (new_analyzer (\<lambda>p k. Responds (ustr ''{}'')) 5 True [])
     = (None, new_analyzer (\<lambda>p k. Responds (ustr ''{}'')) 5 True []) \<and>
   run_items
       [(0, \<lparr>target_dataset_id = [], article_id = [], aggregated_text = [], type_label = []\<rparr>)] 0
       (new_analyzer (\<lambda>p k. Responds (ustr ''{}'')) 5 True [])
     = ([], new_analyzer (\<lambda>p k. Responds (ustr ''{}'')) 5 True [])"
proof -
  let ?a = "new_analyzer (\<lambda>p k. Responds (ustr ''{}'')) 5 True []"
  let ?r = "\<lparr>target_dataset_id = [], article_id = [], aggregated_text = [], type_label = []\<rparr>"
  have h: "1 \<le> max_retries ?a \<and> client ?a (row_prompt ?a ?r) 0 = Responds (ustr ''{}'') \<and>
      json_loads (extract_json_content (ustr ''{}'')) = Some (JObj [])"
    by (simp add: new_analyzer_def loads_empty_object)
  show ?thesis
    using falsy_result_leaves_no_trace [of ?a ?r 0 0 "ustr ''{}''"] h by blast
qed

section \<open>Cutting the JSON text out of an answer\<close>

lemma startswith_first_index: "startswith s sub \<Longrightarrow> first_index sub s = Some 0"
  by (cases s) (auto simp: startswith_def)

lemma first_index_append:
  assumes "\<forall>k < length pre. \<not> startswith (drop k (pre @ sub @ post)) sub"
  shows "first_index sub (pre @ sub @ post) = Some (length pre)"
  using assms
proof (induction pre)
  case Nil
  have "startswith (sub @ post) sub" by (simp add: startswith_def)
  then show ?case by (simp add: startswith_first_index)
next
  case (Cons a pre)
  have "\<not> startswith (drop 0 ((a # pre) @ sub @ post)) sub" using Cons.prems by blast
  then have n: "\<not> startswith (a # pre @ sub @ post) sub" by simp
  have "\<forall>k < length pre. \<not> startswith (drop k (pre @ sub @ post)) sub"
  proof (intro allI impI)
    fix k assume "k < length pre"
    then have "Suc k < length (a # pre)" by simp
    then have "\<not> startswith (drop (Suc k) ((a # pre) @ sub @ post)) sub"
      using Cons.prems by blast
    then show "\<not> startswith (drop k (pre @ sub @ post)) sub" by simp
  qed
  then have "first_index sub (pre @ sub @ post) = Some (length pre)" by (rule Cons.IH)
  then show ?case using n by simp
qed

lemma first_index_single_None: "c \<notin> set s \<Longrightarrow> first_index [c] s = None"
  by (induction s) (auto simp: startswith_def)

lemma last_index_single_None: "c \<notin> set s \<Longrightarrow> last_index [c] s = None"
  by (induction s) (auto simp: startswith_def)

lemma first_index_single: "c \<notin> set pre \<Longrightarrow> first_index [c] (pre @ c # post) = Some (length pre)"
  by (induction pre) (auto simp: startswith_def)

lemma last_index_single: "c \<notin> set post \<Longrightarrow> last_index [c] (pre @ c # post) = Some (length pre)"
  by (induction pre) (auto simp: startswith_def last_index_single_None)

lemma py_in_single: "py_in [c] s \<longleftrightarrow> c \<in> set s"
proof
  assume "py_in [c] s"
  then have "first_index [c] s \<noteq> None" by (simp add: py_in_def)
  then show "c \<in> set s"
    by (rule contrapos_np) (rule first_index_single_None)
next
  assume "c \<in> set s"
  then obtain pre post where "s = pre @ c # post" "c \<notin> set pre"
    by (meson split_list_first)
  then show "py_in [c] s" by (simp add: py_in_def first_index_single)
qed

lemma py_slice_middle:
  "py_slice (pre @ mid @ post) (int (length pre)) (int (length pre + length mid)) = mid"
proof -
  have lo: "py_clip (length (pre @ mid @ post)) (int (length pre)) = length pre"
    by (simp add: py_clip_def)
  have hi: "py_clip (length (pre @ mid @ post)) (int (length pre + length mid))
              = length pre + length mid"
    unfolding py_clip_def by (simp only: nat_int) simp
  show ?thesis
    unfolding py_slice_def Let_def lo hi by simp
qed

lemma py_slice_crossed: "j \<le> i \<Longrightarrow> py_slice s (int i) (int j) = []"
  by (simp add: py_slice_def py_clip_def Let_def min_def)

lemma length_fence: "length (ustr ''```json'') = 7"
  by (simp add: ustr_def)

lemma extract_fenced:
  assumes c: "content = pre @ ustr ''```json'' @ body @ ustr ''```'' @ post"
    and f: "\<forall>k < length pre. \<not> startswith (drop k content) (ustr ''```json'')"
    and t: "\<forall>k < length body. \<not> startswith (drop k (body @ ustr ''```'' @ post)) (ustr ''```'')"
  shows "extract_json_content content = py_strip body"
proof -
  have fi: "first_index (ustr ''```json'') content = Some (length pre)"
    unfolding c using f [unfolded c] by (rule first_index_append)
  have dr: "drop (length pre + 7) content = body @ ustr ''```'' @ post"
    unfolding c by (simp add: length_fence)
  have ti: "first_index (ustr ''```'') (body @ ustr ''```'' @ post) = Some (length body)"
    using t by (rule first_index_append)
  have le: "\<not> length content < length pre + 7" unfolding c by (simp add: length_fence)
  have start: "py_find content (ustr ''```json'') 0 + 7 = int (length pre + 7)"
    by (simp add: py_find_def fi)
  have stop: "py_find content (ustr ''```'') (length pre + 7) = int (length pre + 7 + length body)"
    using le by (simp add: py_find_def dr ti)
  have "content = (pre @ ustr ''```json'') @ body @ (ustr ''```'' @ post)" by (simp add: c)
  moreover have "length (pre @ ustr ''```json'') = length pre + 7" by (simp add: length_fence)
  ultimately have sl: "py_slice content (int (length pre + 7)) (int (length pre + 7 + length body)) = body"
    by (metis py_slice_middle)
  have "py_in (ustr ''```json'') content" by (simp add: py_in_def fi)
  then show ?thesis
    unfolding extract_json_content_def by (simp only: if_True start nat_int stop sl Let_def)
qed

lemma extract_braces:
  assumes c: "content = pre @ [123] @ mid @ [125] @ post"
    and n: "\<not> py_in (ustr ''```json'') content"
    and p: "123 \<notin> set pre" and q: "125 \<notin> set post"
  shows "extract_json_content content = [123] @ mid @ [125]"
proof -
  have fi: "first_index [123] content = Some (length pre)"
    unfolding c using first_index_single [OF p] by simp
  have "content = (pre @ [123] @ mid) @ 125 # post" by (simp add: c)
  then have li: "last_index [125] content = Some (length (pre @ [123] @ mid))"
    using last_index_single [OF q] by metis
  have i1: "py_in [123] content" "py_in [125] content" by (simp_all add: py_in_single c)
  have start: "py_find content [123] 0 = int (length pre)" by (simp add: py_find_def fi)
  have stop: "py_rfind content [125] + 1 = int (length pre + length ([123] @ mid @ [125]))"
    by (simp add: py_rfind_def li)
  have "content = pre @ ([123] @ mid @ [125]) @ post" by (simp add: c)
  then have sl: "py_slice content (int (length pre)) (int (length pre + length ([123] @ mid @ [125])))
                   = [123] @ mid @ [125]"
    by (metis py_slice_middle)
  show ?thesis
    unfolding extract_json_content_def using n i1 by (simp only: if_True if_False start stop sl Let_def simp_thms)
qed

lemma extract_braces_crossed:
  assumes c: "content = pre @ [125] @ mid @ [123] @ post"
    and n: "\<not> py_in (ustr ''```json'') content"
    and p: "123 \<notin> set pre" "123 \<notin> set mid" and q: "125 \<notin> set mid" "125 \<notin> set post"
  shows "extract_json_content content = []"
proof -
  have "content = (pre @ [125] @ mid) @ 123 # post" "123 \<notin> set (pre @ [125] @ mid)"
    using p by (simp_all add: c)
  then have fi: "first_index [123] content = Some (length (pre @ [125] @ mid))"
    using first_index_single by metis
  have "content = pre @ 125 # (mid @ [123] @ post)" "125 \<notin> set (mid @ [123] @ post)"
    using q by (simp_all add: c)
  then have li: "last_index [125] content = Some (length pre)"
    using last_index_single by metis
  have i1: "py_in [123] content" "py_in [125] content" by (simp_all add: py_in_single c)
  have start: "py_find content [123] 0 = int (length (pre @ [125] @ mid))" by (simp add: py_find_def fi)
  have stop: "py_rfind content [125] + 1 = int (length pre + 1)"
    by (simp add: py_rfind_def li)
  have sl: "py_slice content (int (length (pre @ [125] @ mid))) (int (length pre + 1)) = []"
    by (rule py_slice_crossed) simp
  show ?thesis
    unfolding extract_json_content_def using n i1 by (simp only: if_True if_False start stop sl Let_def simp_thms)
qed

lemma extract_whole:
  assumes "\<not> py_in (ustr ''```json'') content" and "123 \<notin> set content \<or> 125 \<notin> set content"
  shows "extract_json_content content = content"
  using assms by (auto simp: extract_json_content_def py_in_single)

lemma py_in_iff: "py_in sub s \<longleftrightarrow> (\<exists>pre post. s = pre @ sub @ post)"
proof
  assume "py_in sub s"
  then obtain i where "first_index sub s = Some i" by (auto simp: py_in_def)
  then show "\<exists>pre post. s = pre @ sub @ post"
  proof (induction s arbitrary: i)
    case Nil
    then show ?case by (auto split: if_splits)
  next
    case (Cons a s)
    show ?case
    proof (cases "startswith (a # s) sub")
      case True
      then have "a # s = [] @ sub @ drop (length sub) (a # s)"
        by (metis append_Nil append_take_drop_id startswith_def)
      then show ?thesis by blast
    next
      case False
      then obtain j where "first_index sub s = Some j" using Cons.prems by auto
      then obtain pre post where "s = pre @ sub @ post" using Cons.IH by blast
      then have "a # s = (a # pre) @ sub @ post" by simp
      then show ?thesis by blast
    qed
  qed
next
  assume "\<exists>pre post. s = pre @ sub @ post"
  then obtain pre post where s: "s = pre @ sub @ post" by blast
  have "first_index sub (pre @ sub @ post) \<noteq> None"
  proof (induction pre)
    case Nil
    have "startswith (sub @ post) sub" by (simp add: startswith_def)
    then show ?case by (simp add: startswith_first_index)
  next
    case (Cons a pre)
    then show ?case by auto
  qed
  then show "py_in sub s" by (simp add: py_in_def s)
qed

lemma all_less_list_all: "(\<forall>k < n. P k) \<longleftrightarrow> list_all P [0..<n]"
  by (auto simp: list_all_iff)

lemma fenced_example_split:
  \<open>ustr ''prefix ```json\<newline>{"a":1}\<newline>``` suffix''
     = ustr ''prefix '' @ ustr ''```json'' @ ustr ''\<newline>{"a":1}\<newline>'' @ ustr ''```''
        @ ustr '' suffix''\<close>
  by (simp add: ustr_def)

lemma fenced_example_first_marker:
  \<open>\<forall>k < length (ustr ''prefix '').
     \<not> startswith (drop k (ustr ''prefix ```json\<newline>{"a":1}\<newline>``` suffix''))
          (ustr ''```json'')\<close>
proof -
  have \<open>list_all (\<lambda>k. \<not> startswith
            (drop k (ustr ''prefix ```json\<newline>{"a":1}\<newline>``` suffix'')) (ustr ''```json''))
          [0..<length (ustr ''prefix '')]\<close>
    by code_simp
  then show ?thesis by (simp only: all_less_list_all)
qed

lemma fenced_example_first_close:
  \<open>\<forall>k < length (ustr ''\<newline>{"a":1}\<newline>'').
     \<not> startswith (drop k (ustr ''\<newline>{"a":1}\<newline>'' @ ustr ''```'' @ ustr '' suffix''))
          (ustr ''```'')\<close>
proof -
  have \<open>list_all (\<lambda>k. \<not> startswith
            (drop k (ustr ''\<newline>{"a":1}\<newline>'' @ ustr ''```'' @ ustr '' suffix''))
            (ustr ''```''))
          [0..<length (ustr ''\<newline>{"a":1}\<newline>'')]\<close>
    by code_simp
  then show ?thesis by (simp only: all_less_list_all)
qed

lemma strip_example: \<open>py_strip (ustr ''\<newline>{"a":1}\<newline>'') = ustr ''{"a":1}''\<close>
  by (simp add: py_strip_def py_isspace_def ustr_def)

lemma loads_object_example: \<open>json_loads (ustr ''{"a":1}'') = Some (JObj [(ustr ''a'', JInt 1)])\<close>
  by code_simp

lemma loads_fenced_example:
  \<open>json_loads (extract_json_content (ustr ''prefix ```json\<newline>{"a":1}\<newline>``` suffix''))
     = Some (JObj [(ustr ''a'', JInt 1)])\<close>
proof -
  have \<open>extract_json_content (ustr ''prefix ```json\<newline>{"a":1}\<newline>``` suffix'')
          = py_strip (ustr ''\<newline>{"a":1}\<newline>'')\<close>
    using fenced_example_split fenced_example_first_marker fenced_example_first_close
    by (rule extract_fenced)
  then show ?thesis by (simp only: strip_example loads_object_example)
qed

lemma loads_braces_example:
  \<open>json_loads (extract_json_content (ustr ''noise {"a":1} noise''))
     = Some (JObj [(ustr ''a'', JInt 1)])\<close>
  by code_simp

lemma loads_42: "json_loads (extract_json_content (ustr ''42'')) = Some (JInt 42)"
  by code_simp

text \<open>
  C2, as the code has it. The text handed to the parser is cut out of the answer so:
  (1) when the answer holds the marker \<open>```json\<close> and, after it, a closing \<open>```\<close>, it is what
  stands between the first marker and the first closing one, with the blanks at both ends
  stripped; (2) when the answer does not hold \<open>```json\<close> and holds both braces, it is the
  slice from the first \<open>{\<close> to the last \<open>}\<close>, both included, which is empty when the last
  \<open>}\<close> comes before the first \<open>{\<close>; (3) when the answer does not hold \<open>```json\<close> and lacks a
  brace, it is the whole answer. The text is parsed as JSON and the parsed value is
  returned. The two examples of the claim parse to \<open>{"a": 1}\<close>. An answer without braces
  and without marker is parsed whole: \<open>no json here\<close> fails to parse, and \<open>42\<close> parses, to
  the number 42.
\<close>

theorem json_candidate_extracted:
  \<open>(fenced = pre @ ustr ''```json'' @ body @ ustr ''```'' @ post \<and>
     (\<forall>k < length pre. \<not> startswith (drop k fenced) (ustr ''```json'')) \<and>
     (\<forall>k < length body. \<not> startswith (drop k (body @ ustr ''```'' @ post)) (ustr ''```''))
     \<longrightarrow> extract_json_content fenced = py_strip body) \<and>
   (braced = before @ [123] @ mid @ [125] @ after \<and>
     \<not> py_in (ustr ''```json'') braced \<and> 123 \<notin> set before \<and> 125 \<notin> set after
     \<longrightarrow> extract_json_content braced = [123] @ mid @ [125]) \<and>
   (crossed = before' @ [125] @ mid' @ [123] @ after' \<and>
     \<not> py_in (ustr ''```json'') crossed \<and>
     123 \<notin> set before' \<and> 123 \<notin> set mid' \<and> 125 \<notin> set mid' \<and> 125 \<notin> set after'
     \<longrightarrow> extract_json_content crossed = []) \<and>
   (\<not> py_in (ustr ''```json'') plain \<and> (123 \<notin> set plain \<or> 125 \<notin> set plain)
     \<longrightarrow> extract_json_content plain = plain) \<and>
   (respond attempt = Responds content \<and>
     json_loads (extract_json_content content) = Some result
     \<longrightarrow> retry_loop respond item_id retries (attempt # rest) = (Some result, [Called attempt])) \<and>
   json_loads (extract_json_content (ustr ''prefix ```json\<newline>{"a":1}\<newline>``` suffix''))
     = Some (JObj [(ustr ''a'', JInt 1)]) \<and>
   json_loads (extract_json_content (ustr ''noise {"a":1} noise''))
     = Some (JObj [(ustr ''a'', JInt 1)]) \<and>
   json_loads (extract_json_content (ustr ''no json here'')) = None \<and>
   json_loads (extract_json_content (ustr ''42'')) = Some (JInt 42)\<close>
proof (intro conjI impI)
  assume "fenced = pre @ ustr ''```json'' @ body @ ustr ''```'' @ post \<and>
     (\<forall>k < length pre. \<not> startswith (drop k fenced) (ustr ''```json'')) \<and>
     (\<forall>k < length body. \<not> startswith (drop k (body @ ustr ''```'' @ post)) (ustr ''```''))"
  then show "extract_json_content fenced = py_strip body"
    using extract_fenced [of fenced pre body post] by blast
next
  assume "braced = before @ [123] @ mid @ [125] @ after \<and>
     \<not> py_in (ustr ''```json'') braced \<and> 123 \<notin> set before \<and> 125 \<notin> set after"
  then show "extract_json_content braced = [123] @ mid @ [125]"
    using extract_braces [of braced before mid after] by blast
next
  assume "crossed = before' @ [125] @ mid' @ [123] @ after' \<and>
     \<not> py_in (ustr ''```json'') crossed \<and>
     123 \<notin> set before' \<and> 123 \<notin> set mid' \<and> 125 \<notin> set mid' \<and> 125 \<notin> set after'"
  then show "extract_json_content crossed = []"
    using extract_braces_crossed [of crossed before' mid' after'] by blast
next
  assume "\<not> py_in (ustr ''```json'') plain \<and> (123 \<notin> set plain \<or> 125 \<notin> set plain)"
  then show "extract_json_content plain = plain"
    using extract_whole [of plain] by blast
next
  assume "respond attempt = Responds content \<and>
     json_loads (extract_json_content content) = Some result"
  then show "retry_loop respond item_id retries (attempt # rest) = (Some result, [Called attempt])"
    by simp
next
  show \<open>json_loads (extract_json_content (ustr ''prefix ```json\<newline>{"a":1}\<newline>``` suffix''))
     = Some (JObj [(ustr ''a'', JInt 1)])\<close>
    by (rule loads_fenced_example)
next
  show \<open>json_loads (extract_json_content (ustr ''noise {"a":1} noise''))
     = Some (JObj [(ustr ''a'', JInt 1)])\<close>
    by (rule loads_braces_example)
next
  show "json_loads (extract_json_content (ustr ''no json here'')) = None"
    by (rule loads_no_json_here)
next
  show "json_loads (extract_json_content (ustr ''42'')) = Some (JInt 42)"
    by (rule loads_42)
qed

theorem json_candidate_extracted_witness:
  \<open>extract_json_content (ustr ''prefix ```json\<newline>{"a":1}\<newline>``` suffix'')
      = py_strip (ustr ''\<newline>{"a":1}\<newline>'') \<and>
   py_strip (ustr ''\<newline>{"a":1}\<newline>'') = ustr ''{"a":1}'' \<and>
   extract_json_content (ustr ''noise {"a":1} noise'') = ustr ''{"a":1}'' \<and>
   extract_json_content (ustr ''} {'') = [] \<and>
   extract_json_content (ustr ''42'') = ustr ''42'' \<and>
   retry_loop (\<lambda>k. Responds (ustr ''42'')) [48] 5 [0] = (Some (JInt 42), [Called 0])\<close>
proof -
  let ?fence = "ustr ''```json''"
  let ?fenced = \<open>ustr ''prefix ```json\<newline>{"a":1}\<newline>``` suffix''\<close>
  let ?body = \<open>ustr ''\<newline>{"a":1}\<newline>''\<close>
  let ?braced = \<open>ustr ''noise {"a":1} noise''\<close>
  have d1: "?fenced = ustr ''prefix '' @ ?fence @ ?body @ ustr ''```'' @ ustr '' suffix''"
    by (rule fenced_example_split)
  have f1: "\<forall>k < length (ustr ''prefix ''). \<not> startswith (drop k ?fenced) ?fence"
    by (rule fenced_example_first_marker)
  have t1: "\<forall>k < length ?body.
      \<not> startswith (drop k (?body @ ustr ''```'' @ ustr '' suffix'')) (ustr ''```'')"
    by (rule fenced_example_first_close)
  have s1: "py_strip ?body = ustr ''{\"a\":1}''" by (rule strip_example)
  have d2: \<open>?braced = ustr ''noise '' @ [123] @ ustr ''"a":1'' @ [125] @ ustr '' noise''\<close>
    by (simp add: ustr_def)
  have n2: "\<not> py_in ?fence ?braced" by code_simp
  have b2: "123 \<notin> set (ustr ''noise '')" "125 \<notin> set (ustr '' noise'')"
    by (simp_all add: ustr_def)
  have r2: \<open>[123] @ ustr ''"a":1'' @ [125] = ustr ''{"a":1}''\<close> by (simp add: ustr_def)
  have d3: "ustr ''} {'' = [] @ [125] @ ustr '' '' @ [123] @ []" by (simp add: ustr_def)
  have n3: "\<not> py_in ?fence (ustr ''} {'')" by code_simp
  have b3: "123 \<notin> set []" "123 \<notin> set (ustr '' '')" "125 \<notin> set (ustr '' '')" "125 \<notin> set []"
    by (simp_all add: ustr_def)
  have n4: "\<not> py_in ?fence (ustr ''42'')" by code_simp
  have b4: "123 \<notin> set (ustr ''42'')" by (simp add: ustr_def)
  note t = json_candidate_extracted [of ?fenced "ustr ''prefix ''" ?body "ustr '' suffix''"
      ?braced "ustr ''noise ''" \<open>ustr ''"a":1''\<close> "ustr '' noise''"
      "ustr ''} {''" "[]" "ustr '' ''" "[]" "ustr ''42''"
      "\<lambda>k. Responds (ustr ''42'')" 0 "ustr ''42''" "JInt 42" "[48]" 5 "[]"]
  have c1: "extract_json_content ?fenced = py_strip ?body" using t d1 f1 t1 by blast
  have c2: "extract_json_content ?braced = [123] @ ustr ''\"a\":1'' @ [125]" using t d2 n2 b2 by blast
  have c3: "extract_json_content (ustr ''} {'') = []" using t d3 n3 b3 by blast
  have c4: "extract_json_content (ustr ''42'') = ustr ''42''" using t n4 b4 by blast
  have c5: "retry_loop (\<lambda>k. Responds (ustr ''42'')) [48] 5 [0] = (Some (JInt 42), [Called 0])"
    using t by blast
  show ?thesis using c1 s1 c2 r2 c3 c4 c5 by simp
qed

theorem no_braces_yet_parses:
  "123 \<notin> set (ustr ''42'') \<and> 125 \<notin> set (ustr ''42'') \<and>
   json_loads (extract_json_content (ustr ''42'')) = Some (JInt 42) \<and>
   json_loads (extract_json_content (ustr ''42'')) \<noteq> None"
  by (simp add: loads_42) (simp add: ustr_def)

section \<open>Checkpoints\<close>

lemma checkpoints_write_other:
  "name \<noteq> ustr ''checkpoint.json'' \<Longrightarrow> checkpoints (write_file name v self) = checkpoints self"
  by (simp add: checkpoints_def write_file_def)

lemma checkpoints_write_checkpoint:
  "checkpoints (write_file (ustr ''checkpoint.json'') v self) = checkpoints self @ [v]"
  by (simp add: checkpoints_def write_file_def)

lemma batch_file_not_checkpoint: "ustr ''batch_'' @ rest \<noteq> ustr ''checkpoint.json''"
  by (simp add: ustr_def)

lemma checkpoints_save_intermediate_result:
  "checkpoints (save_intermediate_result result batch_id index self) = checkpoints self"
  unfolding save_intermediate_result_def
  by (rule checkpoints_write_other) (simp only: append_assoc batch_file_not_checkpoint not_False_eq_True)

lemma checkpoints_save_batch_results:
  "checkpoints (save_batch_results results batch_id self) = checkpoints self"
  unfolding save_batch_results_def
  by (rule checkpoints_write_other) (simp only: append_assoc batch_file_not_checkpoint not_False_eq_True)

lemma checkpoints_fields:
  "checkpoints (self\<lparr>completed_count := n\<rparr>) = checkpoints self"
  "checkpoints (self\<lparr>failed_items := fs\<rparr>) = checkpoints self"
  by (simp_all add: checkpoints_def)

lemma checkpoints_process_single_item:
  "checkpoints (snd (process_single_item item batch_id self)) = checkpoints self"
  by (cases item)
     (simp add: process_single_item_def Let_def checkpoints_fields
        checkpoints_save_intermediate_result split: json.split)

lemma checkpoints_run_items:
  "checkpoints (snd (run_items items batch_id self)) = checkpoints self"
proof (induction items arbitrary: self)
  case Nil
  show ?case by simp
next
  case (Cons item items)
  obtain result self1 where p: "process_single_item item batch_id self = (result, self1)"
    by (cases "process_single_item item batch_id self")
  obtain results self2 where r: "run_items items batch_id self1 = (results, self2)"
    by (cases "run_items items batch_id self1")
  have "checkpoints self1 = checkpoints self"
    using checkpoints_process_single_item [of item batch_id self] p by simp
  moreover have "checkpoints self2 = checkpoints self1"
    using Cons.IH [of self1] r by simp
  ultimately show ?case using p r by simp
qed

lemma last_completed_batch_checkpoint:
  "last_completed_batch (checkpoint batch_num all_results self) = Some batch_num"
  by (simp add: checkpoint_def)

lemma checkpoints_batch_loop:
  "map last_completed_batch (checkpoints (snd (batch_loop completion df batch_size nums acc self)))
     = map last_completed_batch (checkpoints self) @ map Some nums"
proof (induction nums arbitrary: acc self)
  case Nil
  show ?case by simp
next
  case (Cons batch_num rest)
  let ?batch = "batch_slice (zip [0..<length df] df) batch_size batch_num"
  obtain batch_results self1 where
    p: "process_batch completion ?batch batch_num self = (batch_results, self1)"
    by (cases "process_batch completion ?batch batch_num self")
  have c1: "checkpoints self1 = checkpoints self"
    using checkpoints_run_items [of "completion ?batch" batch_num self] p
    by (simp add: process_batch_def)
  define saved where "saved = (if batch_results \<noteq> []
      then save_batch_results batch_results batch_num self1 else self1)"
  define acc' where "acc' = (if batch_results \<noteq> [] then acc @ batch_results else acc)"
  define self2 where "self2 = write_file (ustr ''checkpoint.json'')
      (checkpoint batch_num acc' saved) saved"
  have c2: "checkpoints saved = checkpoints self"
    by (simp add: saved_def checkpoints_save_batch_results c1)
  have c3: "checkpoints self2 = checkpoints self @ [checkpoint batch_num acc' saved]"
    by (simp add: self2_def checkpoints_write_checkpoint c2)
  have step: "batch_loop completion df batch_size (batch_num # rest) acc self
      = batch_loop completion df batch_size rest acc' self2"
    using p by (simp add: Let_def saved_def acc'_def self2_def)
  show ?case
    unfolding step Cons.IH c3 by (simp add: last_completed_batch_checkpoint)
qed

text \<open>
  C7. In a run of \<open>analyze_dataset\<close> that reaches the batch loop, the values of
  \<open>last_completed_batch\<close> written to the checkpoint file are, in order, the batch numbers of
  the loop, \<open>start_from_batch, \<dots>, total_batches - 1\<close>: one checkpoint per batch iteration,
  whatever the batch produced, and strictly increasing.
\<close>

theorem checkpoint_after_every_batch:
  assumes "set required_columns \<subseteq> set columns" and "batch_size \<noteq> 0"
  shows "map last_completed_batch
           (checkpoints (snd (analyze_dataset completion (Frame columns df) batch_size
                                start_from_batch self)))
         = map last_completed_batch (checkpoints self)
           @ map Some (py_range start_from_batch (total_batches (length df) batch_size)) \<and>
         sorted_wrt (<) (py_range start_from_batch (total_batches (length df) batch_size))"
proof -
  let ?nums = "py_range start_from_batch (total_batches (length df) batch_size)"
  have m: "filter (\<lambda>col. col \<notin> set columns) required_columns = []"
    using assms(1) by (auto simp: filter_empty_conv)
  obtain all_results self' where
    l: "batch_loop completion df batch_size ?nums [] self = (all_results, self')"
    by (cases "batch_loop completion df batch_size ?nums [] self")
  have s: "snd (analyze_dataset completion (Frame columns df) batch_size start_from_batch self) = self'"
    using assms(2) l by (simp add: analyze_dataset_def m Let_def split: sum.split)
  have "map last_completed_batch (checkpoints self')
         = map last_completed_batch (checkpoints self) @ map Some ?nums"
    using checkpoints_batch_loop [of completion df batch_size ?nums "[]" self] l by simp
  then show ?thesis
    unfolding s by (simp add: sorted_wrt_py_range)
qed

lemma demo_run_writes:
  "map fst (writes (snd (analyze_dataset id demo_frame 2 0 (new_analyzer demo_client 5 True []))))
     = [ustr ''batch_0_item_0.json'', ustr ''batch_0_item_1.json'', ustr ''batch_0_results.json'',
        ustr ''checkpoint.json'', ustr ''checkpoint.json'']"
  by code_simp

theorem checkpoint_after_every_batch_witness:
  "map last_completed_batch
     (checkpoints (snd (analyze_dataset id demo_frame 2 0 (new_analyzer demo_client 5 True []))))
     = [Some 0, Some 1] \<and>
   map fst (writes (snd (analyze_dataset id demo_frame 2 0 (new_analyzer demo_client 5 True []))))
     = [ustr ''batch_0_item_0.json'', ustr ''batch_0_item_1.json'', ustr ''batch_0_results.json'',
        ustr ''checkpoint.json'', ustr ''checkpoint.json'']"
proof -
  have h1: "set required_columns \<subseteq> set required_columns" by simp
  have h2: "(2::int) \<noteq> 0" by simp
  have t: "total_batches (Suc (Suc (Suc 0))) 2 = 2" by (simp add: total_batches_def)
  have r: "py_range 0 2 = [0, 1]" by (simp add: py_range_def upt_rec)
  have c: "checkpoints (new_analyzer demo_client 5 True []) = []"
    by (simp add: checkpoints_def new_analyzer_def)
  have "map last_completed_batch
     (checkpoints (snd (analyze_dataset id demo_frame 2 0 (new_analyzer demo_client 5 True []))))
     = [Some 0, Some 1]"
    using checkpoint_after_every_batch [OF h1 h2, of id
        "[demo_row (ustr ''x''), demo_row (ustr ''y''), demo_row (ustr ''e'')]" 0
        "new_analyzer demo_client 5 True []"]
    by (simp add: demo_frame_def t r c)
  then show ?thesis using demo_run_writes by simp
qed

section \<open>Keyword frequencies\<close>

lemma count_keywords_fold:
  "count_keywords ks kf = Inr kf' \<Longrightarrow> kf' = fold bump ks kf"
  by (induction ks arbitrary: kf) (auto split: if_splits)

lemma tally_keyword_frequency:
  assumes "tally result t = Inr t'"
  shows "keyword_frequency t'
           = fold bump (if has_error result then [] else keywords_of result) (keyword_frequency t)"
proof (cases "has_error result")
  case True
  then show ?thesis using assms by (simp add: tally_def)
next
  case False
  obtain ks where ks: "py_iter (dict_get result (ustr ''supporting_keywords'') (JArr [])) = Inr ks"
    using assms False by (auto simp: tally_def Let_def split: if_splits sum.splits)
  obtain kf where kf: "count_keywords ks (keyword_frequency t) = Inr kf"
    and t': "keyword_frequency t' = kf"
    using assms False ks by (auto simp: tally_def Let_def split: if_splits sum.splits)
  have "keywords_of result = ks" by (simp add: keywords_of_def ks)
  then show ?thesis using False count_keywords_fold [OF kf] t' by simp
qed

lemma tally_all_keyword_frequency:
  "tally_all results t = Inr t' \<Longrightarrow>
     keyword_frequency t' = fold bump (flattened_keywords results) (keyword_frequency t)"
proof (induction results arbitrary: t)
  case Nil
  then show ?case by (simp add: flattened_keywords_def)
next
  case (Cons result results)
  obtain t1 where t1: "tally result t = Inr t1" and rest: "tally_all results t1 = Inr t'"
    using Cons.prems by (auto split: sum.splits)
  have "keyword_frequency t' = fold bump (flattened_keywords results) (keyword_frequency t1)"
    using Cons.IH [OF rest] .
  then show ?case
    using tally_keyword_frequency [OF t1] by (simp add: flattened_keywords_def)
qed

lemma map_of_table:
  "map_of (map (\<lambda>k. (k, f k)) ks) x = (if x \<in> set ks then Some (f x) else None)"
  by (induction ks) auto

lemma update_table:
  "distinct ks \<Longrightarrow>
     AList.update x v (map (\<lambda>k. (k, f k)) ks)
       = (if x \<in> set ks then map (\<lambda>k. (k, if k = x then v else f k)) ks
          else map (\<lambda>k. (k, f k)) ks @ [(x, v)])"
  by (induction ks) auto

lemma first_seen_snoc:
  "first_seen (xs @ [x]) = (if x \<in> set xs then first_seen xs else first_seen xs @ [x])"
  by (simp add: first_seen_def)

lemma first_seen_props: "distinct (first_seen xs)" "set (first_seen xs) = set xs"
  by (simp_all add: first_seen_def)

lemma fold_bump_table:
  "fold bump xs [] = map (\<lambda>k. (k, count_list xs k)) (first_seen xs)"
proof (induction xs rule: rev_induct)
  case Nil
  show ?case by (simp add: first_seen_def)
next
  case (snoc x xs)
  have "fold bump (xs @ [x]) [] = bump x (map (\<lambda>k. (k, count_list xs k)) (first_seen xs))"
    using snoc.IH by simp
  also have "\<dots> = map (\<lambda>k. (k, count_list (xs @ [x]) k)) (first_seen (xs @ [x]))"
  proof (cases "x \<in> set xs")
    case True
    then show ?thesis
      by (simp add: bump_def dict_get_def map_of_table update_table first_seen_props
          first_seen_snoc)
  next
    case False
    then have "count_list xs x = 0" by simp
    moreover have "\<forall>k \<in> set (first_seen xs). k \<noteq> x"
      using False by (auto simp: first_seen_props)
    ultimately show ?thesis
      using False
      by (auto simp: bump_def dict_get_def map_of_table update_table first_seen_props
          first_seen_snoc)
  qed
  finally show ?case .
qed

lemma sorted_by_count_desc_props:
  "mset (sorted_by_count_desc items) = mset items"
  "sorted_wrt (\<lambda>a b. snd b \<le> snd a) (sorted_by_count_desc items)"
  "filter (\<lambda>p. snd p = c) (sorted_by_count_desc items) = filter (\<lambda>p. snd p = c) items"
proof -
  show "mset (sorted_by_count_desc items) = mset items"
    by (simp add: sorted_by_count_desc_def)
  have "sorted (map (\<lambda>x. - int (snd x)) (sorted_by_count_desc items))"
    unfolding sorted_by_count_desc_def by (rule sorted_sort_key)
  then show "sorted_wrt (\<lambda>a b. snd b \<le> snd a) (sorted_by_count_desc items)"
    by (simp add: sorted_map sorted_wrt_iff_nth_less)
  have "filter (\<lambda>y. - int (snd y) = - int c) (sort_key (\<lambda>x. - int (snd x)) items)
          = filter (\<lambda>y. - int (snd y) = - int c) items"
    by (rule sort_key_stable)
  then show "filter (\<lambda>p. snd p = c) (sorted_by_count_desc items) = filter (\<lambda>p. snd p = c) items"
    by (simp add: sorted_by_count_desc_def)
qed

lemma demo_keyword_tally:
  "tally_all demo_keyword_results
       \<lparr>classification_dist = [], pattern_analysis = [], keyword_frequency = []\<rparr>
     = Inr \<lparr>classification_dist = [(JStr (ustr ''unknown''), 2)], pattern_analysis = [],
            keyword_frequency = [(JStr (ustr ''x''), 2), (JStr (ustr ''y''), 1)]\<rparr>"
  by code_simp

lemma demo_keyword_top:
  "\<exists>s. generate_summary self demo_keyword_results = Inr (Summary s) \<and>
       top_keywords s = [(JStr (ustr ''x''), 2), (JStr (ustr ''y''), 1)]"
proof -
  have ne: "demo_keyword_results \<noteq> []" by (simp add: demo_keyword_results_def)
  have so: "sorted_by_count_desc [(JStr (ustr ''x''), 2), (JStr (ustr ''y''), Suc 0)]
              = [(JStr (ustr ''x''), 2), (JStr (ustr ''y''), Suc 0)]"
    by (simp add: sorted_by_count_desc_def)
  show ?thesis
    by (simp add: generate_summary_def ne demo_keyword_tally so)
qed

lemma demo_keywords_flat:
  "flattened_keywords demo_keyword_results
     = [JStr (ustr ''x''), JStr (ustr ''y''), JStr (ustr ''x'')]"
  by code_simp

lemma demo_keyword_counts:
  "keyword_counts demo_keyword_results = [(JStr (ustr ''x''), 2), (JStr (ustr ''y''), 1)]"
  by code_simp

text \<open>
  C8. In a summary that \<open>generate_summary\<close> returns, \<open>top_keywords\<close> is made so: the
  keyword lists of the results without an \<open>error\<close> key are put in one list; each keyword
  gets the number of its occurrences, the keywords standing in the order in which they
  are first met; this table is ranked by falling count, keywords of equal count keeping
  the order of the table; the first 20 entries are kept. For the keyword lists
  \<open>[["x", "y"], ["x"]]\<close> the result is \<open>x\<close> with 2, then \<open>y\<close> with 1. The keywords are strings.
\<close>

theorem top_keywords_ranked:
  "(generate_summary self results = Inr (Summary s) \<and>
      (\<forall>k \<in> set (flattened_keywords results). \<exists>w. k = JStr w)
      \<longrightarrow> (\<exists>ranked.
             top_keywords s = take 20 ranked \<and>
             mset ranked = mset (keyword_counts results) \<and>
             sorted_wrt (\<lambda>a b. snd b \<le> snd a) ranked \<and>
             (\<forall>c. filter (\<lambda>p. snd p = c) ranked
                    = filter (\<lambda>p. snd p = c) (keyword_counts results)))) \<and>
   (\<exists>s'. generate_summary self demo_keyword_results = Inr (Summary s') \<and>
         top_keywords s' = [(JStr (ustr ''x''), 2), (JStr (ustr ''y''), 1)])"
proof (intro conjI impI)
  assume a: "generate_summary self results = Inr (Summary s) \<and>
      (\<forall>k \<in> set (flattened_keywords results). \<exists>w. k = JStr w)"
  then obtain t where t: "tally_all results
      \<lparr>classification_dist = [], pattern_analysis = [], keyword_frequency = []\<rparr> = Inr t"
    and s: "top_keywords s = take 20 (sorted_by_count_desc (keyword_frequency t))"
    by (auto simp: generate_summary_def split: if_splits sum.splits)
  have "keyword_frequency t = fold bump (flattened_keywords results) []"
    using tally_all_keyword_frequency [OF t] by simp
  then have kf: "keyword_frequency t = keyword_counts results"
    by (simp add: fold_bump_table keyword_counts_def)
  show "\<exists>ranked.
             top_keywords s = take 20 ranked \<and>
             mset ranked = mset (keyword_counts results) \<and>
             sorted_wrt (\<lambda>a b. snd b \<le> snd a) ranked \<and>
             (\<forall>c. filter (\<lambda>p. snd p = c) ranked
                    = filter (\<lambda>p. snd p = c) (keyword_counts results))"
    using s sorted_by_count_desc_props [where items = "keyword_counts results"]
    by (intro exI [of _ "sorted_by_count_desc (keyword_counts results)"]) (simp add: kf)
next
  show "\<exists>s'. generate_summary self demo_keyword_results = Inr (Summary s') \<and>
         top_keywords s' = [(JStr (ustr ''x''), 2), (JStr (ustr ''y''), 1)]"
    by (rule demo_keyword_top)
qed

theorem top_keywords_ranked_witness:
  "(\<exists>s ranked.
      generate_summary (new_analyzer demo_client 5 True []) demo_keyword_results
        = Inr (Summary s) \<and>
      top_keywords s = [(JStr (ustr ''x''), 2), (JStr (ustr ''y''), 1)] \<and>
      top_keywords s = take 20 ranked \<and>
      mset ranked = mset (keyword_counts demo_keyword_results) \<and>
      sorted_wrt (\<lambda>a b. snd b \<le> snd a) ranked) \<and>
   keyword_counts demo_keyword_results = [(JStr (ustr ''x''), 2), (JStr (ustr ''y''), 1)]"
proof -
  let ?a = "new_analyzer demo_client 5 True []"
  obtain s where g: "generate_summary ?a demo_keyword_results = Inr (Summary s)"
    and k: "top_keywords s = [(JStr (ustr ''x''), 2), (JStr (ustr ''y''), 1)]"
    using demo_keyword_top [of ?a] by blast
  have h: "\<forall>k \<in> set (flattened_keywords demo_keyword_results). \<exists>w. k = JStr w"
    by (simp add: demo_keywords_flat)
  obtain ranked where "top_keywords s = take 20 ranked"
    "mset ranked = mset (keyword_counts demo_keyword_results)"
    "sorted_wrt (\<lambda>a b. snd b \<le> snd a) ranked"
    using top_keywords_ranked [of ?a demo_keyword_results s] g h by blast
  then show ?thesis using g k demo_keyword_counts by blast
qed

section \<open>Accuracy counts\<close>

lemma length_filter_split:
  "length (filter (\<lambda>r. P r \<and> Q r) xs) + length (filter (\<lambda>r. P r \<and> \<not> Q r) xs)
     = length (filter P xs)"
  by (induction xs) auto

text \<open>
  C9. With mislabel analysis enabled and a non-empty result list, a summary that
  \<open>generate_summary\<close> returns has an \<open>accuracy_analysis\<close>: among the results without an
  \<open>error\<close> key, \<open>correct_classifications\<close> counts those whose \<open>is_correct_classification\<close>
  is true or absent and \<open>incorrect_classifications\<close> those where it is false, so that the
  two add up to \<open>total_analyzed\<close>, the number of results without an \<open>error\<close> key.
\<close>

theorem accuracy_counts_add_up:
  assumes "enable_mislabel_analysis self" and "results \<noteq> []"
    and "generate_summary self results = Inr sr"
  shows "(\<exists>s acc. sr = Summary s \<and> accuracy_analysis s = Some acc \<and>
           total_analyzed acc = length (filter (\<lambda>r. \<not> has_error r) results) \<and>
           correct_classifications acc
             = length (filter (\<lambda>r. \<not> has_error r \<and> is_correct r) results) \<and>
           incorrect_classifications acc
             = length (filter (\<lambda>r. \<not> has_error r \<and> \<not> is_correct r) results) \<and>
           correct_classifications acc + incorrect_classifications acc = total_analyzed acc) \<and>
         (map_of r (ustr ''is_correct_classification'') = None \<longrightarrow> is_correct r) \<and>
         (map_of r (ustr ''is_correct_classification'') = Some (JBool b) \<longrightarrow> is_correct r = b)"
proof (intro conjI impI)
  obtain t where t: "tally_all results
      \<lparr>classification_dist = [], pattern_analysis = [], keyword_frequency = []\<rparr> = Inr t"
    using assms(2,3) by (auto simp: generate_summary_def split: sum.splits)
  define acc where "acc = \<lparr>total_analyzed = length (filter (\<lambda>r. \<not> has_error r) results),
      correct_classifications = length (filter (\<lambda>r. \<not> has_error r \<and> is_correct r) results),
      incorrect_classifications
        = length (filter (\<lambda>r. \<not> has_error r \<and> \<not> is_correct r) results)\<rparr>"
  define s where "s = \<lparr>classification_distribution = classification_dist t,
      top_keywords = take 20 (sorted_by_count_desc (keyword_frequency t)),
      context_patterns_by_type = pattern_analysis t,
      accuracy_analysis = Some acc\<rparr>"
  have sr: "sr = Summary s"
    using assms t by (simp add: generate_summary_def s_def acc_def)
  have sum: "correct_classifications acc + incorrect_classifications acc = total_analyzed acc"
    unfolding acc_def by (simp add: length_filter_split [of "\<lambda>r. \<not> has_error r" is_correct])
  show "\<exists>s acc. sr = Summary s \<and> accuracy_analysis s = Some acc \<and>
           total_analyzed acc = length (filter (\<lambda>r. \<not> has_error r) results) \<and>
           correct_classifications acc
             = length (filter (\<lambda>r. \<not> has_error r \<and> is_correct r) results) \<and>
           incorrect_classifications acc
             = length (filter (\<lambda>r. \<not> has_error r \<and> \<not> is_correct r) results) \<and>
           correct_classifications acc + incorrect_classifications acc = total_analyzed acc"
    using sr sum by (intro exI [of _ s] exI [of _ acc]) (simp add: s_def acc_def)
next
  assume "map_of r (ustr ''is_correct_classification'') = None"
  then show "is_correct r" by (simp add: is_correct_def dict_get_def)
next
  assume "map_of r (ustr ''is_correct_classification'') = Some (JBool b)"
  then show "is_correct r = b" by (simp add: is_correct_def dict_get_def)
qed

lemma demo_results_summary:
  "generate_summary (new_analyzer demo_client 5 True []) demo_results =
     Inr (Summary
       \<lparr>classification_distribution = [(JStr (ustr ''unknown''), 2), (JStr (ustr ''Primary''), 1)],
        top_keywords = [],
        context_patterns_by_type = [],
        accuracy_analysis = Some \<lparr>total_analyzed = 3, correct_classifications = 2,
                                    incorrect_classifications = 1\<rparr>\<rparr>)"
  by code_simp

theorem accuracy_counts_add_up_witness:
  "\<exists>s acc. generate_summary (new_analyzer demo_client 5 True []) demo_results = Inr (Summary s) \<and>
     accuracy_analysis s = Some acc \<and>
     total_analyzed acc = 3 \<and> correct_classifications acc = 2 \<and>
     incorrect_classifications acc = 1 \<and>
     correct_classifications acc + incorrect_classifications acc = total_analyzed acc"
proof -
  let ?a = "new_analyzer demo_client 5 True []"
  have h1: "enable_mislabel_analysis ?a" by (simp add: new_analyzer_def)
  have h2: "demo_results \<noteq> []" by (simp add: demo_results_def)
  note t = accuracy_counts_add_up [OF h1 h2 demo_results_summary]
  show ?thesis using t demo_results_summary by auto
qed

section \<open>Resuming from a later batch\<close>

text \<open>
  C1, on the code. Three rows in batches of two; every row gets an answer. A run
  from batch 0 processes the rows 0, 1 and 2. A run interrupted after batch 0 leaves the
  results of the rows 0 and 1 in \<open>batch_0_results.json\<close>; the run resumed from batch 1
  loads them, and returns the result of row 2 alone, with \<open>total_processed = 1\<close>.
\<close>

theorem resume_drops_earlier_batches:
  "processed_indices (analyze_dataset id (Frame required_columns resume_rows) 2 0
       (new_analyzer demo_client 5 True []))
     = Some [JInt 0, JInt 1, JInt 2] \<and>
   map row_index
     (map (\<lambda>j. case j of JObj d \<Rightarrow> d | _ \<Rightarrow> [])
        (load_existing_results (interrupted id resume_rows 2 0 (new_analyzer demo_client 5 True []))))
     = [JInt 0, JInt 1] \<and>
   processed_indices (analyze_dataset id (Frame required_columns resume_rows) 2 1
       (interrupted id resume_rows 2 0 (new_analyzer demo_client 5 True [])))
     = Some [JInt 2] \<and>
   processed_count (analyze_dataset id (Frame required_columns resume_rows) 2 1
       (interrupted id resume_rows 2 0 (new_analyzer demo_client 5 True [])))
     = Some 1"
  by code_simp

end
